theory Spec2Isabelle
  imports Complex_Main "HOL-Library.Word"
begin

unbundle bit_operations_syntax

section \<open>dscompress: replacing measurement-set columns by Dysco-compressed columns\<close>

text \<open>
  The development embeds \<^verbatim>\<open>src/dscompress.cpp\<close>: the function template
  \<^verbatim>\<open>createDyscoStManColumn\<close> and \<^verbatim>\<open>main\<close>. Exceptions and undefined
  behaviour are values of type \<open>error\<close>; the measurement set is an explicit table that
  every operation takes and returns; every call that \<^verbatim>\<open>main\<close> makes on the table,
  on the storage manager or on the \<^verbatim>\<open>StManModifier\<close> is recorded, in the order
  of the calls, in an event log. Console output and the stopwatch are not modelled.
\<close>

subsection \<open>Values\<close>

text \<open>
  A \<^verbatim>\<open>float\<close> is its IEEE-754 binary32 bit pattern, so that "unchanged" means
  bit-identical. \<^verbatim>\<open>std::numeric_limits<float>::quiet_NaN()\<close> is the pattern with
  all exponent bits and the top mantissa bit set. A \<^verbatim>\<open>double\<close> (only the two
  distribution parameters are doubles) is modelled by a real number.
\<close>

type_synonym float = "32 word"

definition quiet_NaN :: float where
  "quiet_NaN = 0x7FC00000"

definition isnan :: "float \<Rightarrow> bool" where
  "isnan x \<longleftrightarrow> x AND 0x7F800000 = 0x7F800000 \<and> x AND 0x007FFFFF \<noteq> 0"

datatype complex_float = Cplx (re: float) (im: float)

text \<open>The enumerations of \<^verbatim>\<open>dyscodistribution.h\<close> and \<^verbatim>\<open>dysconormalization.h\<close>,
  with the enumerators that the source names.\<close>

datatype DyscoDistribution =
  GaussianDistribution | UniformDistribution | StudentsTDistribution
  | TruncatedGaussianDistribution

datatype DyscoNormalization = AFNormalization | RFNormalization | RowNormalization

text \<open>The template argument of the column operations: \<^verbatim>\<open>casacore::Complex\<close> or
  \<^verbatim>\<open>float\<close>.\<close>

datatype elem_type = ComplexT | FloatT

subsection \<open>Errors\<close>

datatype error =
    InvalidParameter string
      \<comment> \<open>\<^verbatim>\<open>std::runtime_error("Invalid parameter: ...")\<close> thrown by \<^verbatim>\<open>main\<close>\<close>
  | NullArgument
      \<comment> \<open>\<^verbatim>\<open>argv[argc]\<close>, a null pointer, given to \<^verbatim>\<open>atoi\<close>, \<^verbatim>\<open>atof\<close> or
          \<^verbatim>\<open>std::string\<close>: undefined behaviour\<close>
  | TableOpenError string
      \<comment> \<open>no table can be opened for update under the path\<close>
  | ColumnError string
      \<comment> \<open>the table has no column of that name, or not one of the element type asked for\<close>
  | RowError nat
      \<comment> \<open>the column has no such row\<close>
  | FlagOverrun
      \<comment> \<open>the flag iterator is read past the end of \<^verbatim>\<open>flagArr\<close>: undefined behaviour\<close>
  | ColumnExists string
      \<comment> \<open>a column of that name is already bound to the target manager\<close>
  | ShapeError
      \<comment> \<open>the replaced columns disagree in shape, or the shape is degenerate\<close>
  | ConfigurationError
      \<comment> \<open>the storage manager rejects its configuration\<close>

subsection \<open>The measurement set\<close>

text \<open>
  A column holds one array per row; an array is the list of its cells in storage order,
  which is the order in which \<^verbatim>\<open>cbegin()\<close> .. \<^verbatim>\<open>cend()\<close> visits them.
  \<open>OtherCells\<close> stands for a column of any other element type.
\<close>

datatype cells =
    ComplexCells "complex_float list list"
  | FloatCells "float list list"
  | BoolCells "bool list list"
  | OtherCells

type_synonym IPosition = "nat list"

record column =
  dataManagerType :: string
  cellShape :: IPosition
  cells :: cells

text \<open>Modelled from the spec: the storage manager configuration of \<^verbatim>\<open>dyscostman.h\<close>,
  which is not among the sources (section 3: bit-width for values, bit-width for weights,
  a distribution variant with its parameter, a normalization mode). A distribution or
  normalization that no setter has chosen yet is \<open>None\<close>.\<close>

datatype distribution_variant =
  Gaussian | Uniform | StudentsT real | TruncatedGaussian real

record DyscoStMan =
  dataBitCount :: "32 word"
  weightBitCount :: "32 word"
  distribution_of :: "distribution_variant option"
  normalization_of :: "DyscoNormalization option"

text \<open>
  The table: its row count, its columns by name, the column instances superseded by a
  redefinition under the same name (kept until the table is compacted), and its storage
  managers by name.
\<close>

record table =
  nrow :: nat
  columns :: "string \<rightharpoonup> column"
  superseded :: "string \<rightharpoonup> column"
  dataManagers :: "string \<rightharpoonup> DyscoStMan"

subsection \<open>Events and the state of a run\<close>

datatype event =
    EvOpenMS string
      \<comment> \<open>\<^verbatim>\<open>new casacore::MeasurementSet(msPath, casacore::Table::Update)\<close>\<close>
  | EvGetData string nat
      \<comment> \<open>\<^verbatim>\<open>dataCol.get(row, dataArr)\<close>\<close>
  | EvGetFlag nat
      \<comment> \<open>\<^verbatim>\<open>flagCol.get(row, flagArr)\<close>\<close>
  | EvPutData string nat "complex_float list"
      \<comment> \<open>\<^verbatim>\<open>dataCol.put(row, dataArr)\<close>\<close>
  | EvPrepareReplacingColumn elem_type string "bool option"
      \<comment> \<open>\<^verbatim>\<open>modifier.PrepareReplacingColumn<T>(columnName, ...)\<close> and what it
          returned (\<open>None\<close>: it threw)\<close>
  | EvFindDataManager string bool
      \<comment> \<open>\<^verbatim>\<open>ms.findDataManager("DyscoStMan")\<close>; \<open>False\<close>: it threw\<close>
  | EvNewDyscoStMan "32 word" "32 word"
      \<comment> \<open>\<^verbatim>\<open>DyscoStMan dataManager(bitsPerComplex, bitsPerWeight)\<close>\<close>
  | EvSetGaussianDistribution
  | EvSetUniformDistribution
  | EvSetStudentsTDistribution real
  | EvSetTruncatedGaussianDistribution real
  | EvSetNormalization DyscoNormalization
  | EvAddColumn elem_type string
      \<comment> \<open>\<^verbatim>\<open>ms.addColumn(columnDesc, dataManager)\<close>, with the manager just built\<close>
  | EvAddColumnExisting elem_type string
      \<comment> \<open>\<^verbatim>\<open>ms.addColumn(columnDesc, "DyscoStMan", false)\<close>\<close>
  | EvMoveColumnData elem_type string
      \<comment> \<open>\<^verbatim>\<open>modifier.MoveColumnData<T>(columnName)\<close>\<close>
  | EvReorder string
      \<comment> \<open>\<^verbatim>\<open>StManModifier::Reorder(ms, msPath)\<close>\<close>

record state =
  ms :: table
  events :: "event list"

text \<open>A statement of the program: it ends with an exception or a value, in a new state.\<close>

type_synonym 'a io = "state \<Rightarrow> (error + 'a) \<times> state"

definition return_io :: "'a \<Rightarrow> 'a io" where
  "return_io x st = (Inr x, st)"

definition throw_io :: "error \<Rightarrow> 'a io" where
  "throw_io e st = (Inl e, st)"

definition bind_io :: "'a io \<Rightarrow> ('a \<Rightarrow> 'b io) \<Rightarrow> 'b io" where
  "bind_io m f st = (case m st of (Inl e, st') \<Rightarrow> (Inl e, st') | (Inr x, st') \<Rightarrow> f x st')"

definition emit :: "event \<Rightarrow> unit io" where
  "emit ev st = (Inr (), st\<lparr>events := events st @ [ev]\<rparr>)"

subsection \<open>Command line\<close>

text \<open>
  \<^verbatim>\<open>atoi\<close> of the C library, which is \<^verbatim>\<open>(int) strtol(s, NULL, 10)\<close>: white
  space is skipped, an optional sign is read, then decimal digits up to the first other
  character; \<^verbatim>\<open>strtol\<close> saturates at \<^verbatim>\<open>LONG_MIN\<close> and \<^verbatim>\<open>LONG_MAX\<close> of a
  64-bit \<^verbatim>\<open>long\<close>, and the conversion to \<^verbatim>\<open>int\<close> keeps the low 32 bits. The
  result is assigned to an \<^verbatim>\<open>unsigned\<close>, which is the conversion modulo \<open>2 ^ 32\<close>
  (\<open>word_of_int\<close>).
\<close>

definition isspace :: "char \<Rightarrow> bool" where
  "isspace c \<longleftrightarrow> c = CHR 0x20 \<or> (9 \<le> (of_char c :: nat) \<and> (of_char c :: nat) \<le> 13)"

definition isdigit :: "char \<Rightarrow> bool" where
  "isdigit c \<longleftrightarrow> 48 \<le> (of_char c :: nat) \<and> (of_char c :: nat) \<le> 57"

fun digits :: "int \<Rightarrow> string \<Rightarrow> int" where
  "digits acc [] = acc"
| "digits acc (c # cs) =
     (if isdigit c then digits (acc * 10 + (int (of_char c) - 48)) cs else acc)"

definition strtol :: "string \<Rightarrow> int" where
  "strtol s =
     (let v = (case dropWhile isspace s of
                 [] \<Rightarrow> 0
               | c # cs \<Rightarrow>
                   if c = CHR ''-'' then - digits 0 cs
                   else if c = CHR ''+'' then digits 0 cs
                   else digits 0 (c # cs))
      in max (- (2 ^ 63)) (min (2 ^ 63 - 1) v))"

definition atoi :: "string \<Rightarrow> int" where
  "atoi s = sint (word_of_int (strtol s) :: 32 word)"

text \<open>The local variables of \<^verbatim>\<open>main\<close> that the option loop sets, with their initial
  values (lines 110 to 116).\<close>

record request =
  distribution :: DyscoDistribution
  normalization :: DyscoNormalization
  reorder :: bool
  bitsPerFloat :: "32 word"
  bitsPerWeight :: "32 word"
  distributionTruncation :: real
  columnNames :: "string list"

definition defaults :: request where
  "defaults =
     \<lparr>distribution = TruncatedGaussianDistribution,
      normalization = AFNormalization,
      reorder = False,
      bitsPerFloat = 8,
      bitsPerWeight = 12,
      distributionTruncation = 5 / 2,
      columnNames = []\<rparr>"

text \<open>
  The option loop (lines 119 to 173) over the arguments from \<^verbatim>\<open>argv[argi]\<close> on. It
  stops at the first argument that does not start with \<^verbatim>\<open>-\<close> and returns the
  remaining arguments. An option that takes a value and is the last argument reads
  \<^verbatim>\<open>argv[argc]\<close>. \<^verbatim>\<open>atof\<close> is a parameter.
\<close>

fun parse_options ::
  "(string \<Rightarrow> real) \<Rightarrow> string list \<Rightarrow> request \<Rightarrow> error + request \<times> string list"
where
  "parse_options atof [] rq = Inr (rq, [])"
| "parse_options atof (a # as) rq =
     (if a \<noteq> [] \<and> hd a = CHR ''-'' then
        let p = tl a in
        if p = ''data-bit-rate'' then
          (case as of
             [] \<Rightarrow> Inl NullArgument
           | v # rest \<Rightarrow> parse_options atof rest (rq\<lparr>bitsPerFloat := word_of_int (atoi v)\<rparr>))
        else if p = ''weight-bit-rate'' then
          (case as of
             [] \<Rightarrow> Inl NullArgument
           | v # rest \<Rightarrow> parse_options atof rest (rq\<lparr>bitsPerWeight := word_of_int (atoi v)\<rparr>))
        else if p = ''reorder'' then
          parse_options atof as (rq\<lparr>reorder := True\<rparr>)
        else if p = ''gaussian'' then
          parse_options atof as (rq\<lparr>distribution := GaussianDistribution\<rparr>)
        else if p = ''uniform'' then
          parse_options atof as (rq\<lparr>distribution := UniformDistribution\<rparr>)
        else if p = ''studentt'' then
          parse_options atof as (rq\<lparr>distribution := StudentsTDistribution\<rparr>)
        else if p = ''truncgaus'' then
          (case as of
             [] \<Rightarrow> Inl NullArgument
           | v # rest \<Rightarrow>
               parse_options atof rest
                 (rq\<lparr>distribution := TruncatedGaussianDistribution,
                     distributionTruncation := atof v\<rparr>))
        else if p = ''column'' then
          (case as of
             [] \<Rightarrow> Inl NullArgument
           | v # rest \<Rightarrow> parse_options atof rest (rq\<lparr>columnNames := columnNames rq @ [v]\<rparr>))
        else if p = ''rfnormalization'' then
          parse_options atof as (rq\<lparr>normalization := RFNormalization\<rparr>)
        else if p = ''afnormalization'' then
          parse_options atof as (rq\<lparr>normalization := AFNormalization\<rparr>)
        else if p = ''rownormalization'' then
          parse_options atof as (rq\<lparr>normalization := RowNormalization\<rparr>)
        else Inl (InvalidParameter a)
      else Inr (rq, a # as))"

text \<open>Lines 110 to 177: the option loop, the default column, and the path. The argument
  list is \<^verbatim>\<open>argv[1]\<close> .. \<^verbatim>\<open>argv[argc - 1]\<close>.\<close>

definition parse_args :: "(string \<Rightarrow> real) \<Rightarrow> string list \<Rightarrow> error + request \<times> string" where
  "parse_args atof args =
     (case parse_options atof args defaults of
        Inl e \<Rightarrow> Inl e
      | Inr (rq, rest) \<Rightarrow>
          let rq' = (if columnNames rq = [] then rq\<lparr>columnNames := [''DATA'']\<rparr> else rq) in
          (case rest of
             [] \<Rightarrow> Inl NullArgument
           | msPath # _ \<Rightarrow> Inr (rq', msPath)))"

subsection \<open>Reading and writing cells\<close>

text \<open>
  The operations of the table library that the preprocessing pass uses. Attaching an
  \<^verbatim>\<open>ArrayColumn<T>\<close> to a column throws unless the column exists and has element
  type \<^verbatim>\<open>T\<close>. \<^verbatim>\<open>get\<close> returns the array of a row and \<^verbatim>\<open>put\<close> stores
  one; the buffers \<^verbatim>\<open>dataArr\<close> and \<^verbatim>\<open>flagArr\<close> are what \<^verbatim>\<open>get\<close> returned
  last. \<^verbatim>\<open>put\<close> stores the array as it is given: what the codec of a column that is
  compressed already does to it is outside the model.
\<close>

definition complex_rows :: "table \<Rightarrow> string \<Rightarrow> error + complex_float list list" where
  "complex_rows t name =
     (case columns t name of
        None \<Rightarrow> Inl (ColumnError name)
      | Some c \<Rightarrow>
          (case cells c of ComplexCells rows \<Rightarrow> Inr rows | _ \<Rightarrow> Inl (ColumnError name)))"

definition bool_rows :: "table \<Rightarrow> string \<Rightarrow> error + bool list list" where
  "bool_rows t name =
     (case columns t name of
        None \<Rightarrow> Inl (ColumnError name)
      | Some c \<Rightarrow>
          (case cells c of BoolCells rows \<Rightarrow> Inr rows | _ \<Rightarrow> Inl (ColumnError name)))"

definition attach_complex :: "string \<Rightarrow> unit io" where
  \<comment> \<open>\<^verbatim>\<open>casacore::ArrayColumn<std::complex<float>> dataCol(*ms, columnName)\<close>\<close>
  "attach_complex name st =
     (case complex_rows (ms st) name of Inl e \<Rightarrow> (Inl e, st) | Inr _ \<Rightarrow> (Inr (), st))"

definition attach_bool :: "string \<Rightarrow> unit io" where
  \<comment> \<open>\<^verbatim>\<open>casacore::ArrayColumn<bool> flagCol(*ms, "FLAG")\<close>\<close>
  "attach_bool name st =
     (case bool_rows (ms st) name of Inl e \<Rightarrow> (Inl e, st) | Inr _ \<Rightarrow> (Inr (), st))"

definition get_data :: "string \<Rightarrow> nat \<Rightarrow> complex_float list io" where
  "get_data name row =
     bind_io (emit (EvGetData name row)) (\<lambda>_ st.
       case complex_rows (ms st) name of
         Inl e \<Rightarrow> (Inl e, st)
       | Inr rows \<Rightarrow>
           if row < length rows then (Inr (rows ! row), st) else (Inl (RowError row), st))"

definition get_flag :: "nat \<Rightarrow> bool list io" where
  "get_flag row =
     bind_io (emit (EvGetFlag row)) (\<lambda>_ st.
       case bool_rows (ms st) ''FLAG'' of
         Inl e \<Rightarrow> (Inl e, st)
       | Inr rows \<Rightarrow>
           if row < length rows then (Inr (rows ! row), st) else (Inl (RowError row), st))"

definition put_data :: "string \<Rightarrow> nat \<Rightarrow> complex_float list \<Rightarrow> unit io" where
  "put_data name row arr =
     bind_io (emit (EvPutData name row arr)) (\<lambda>_ st.
       case columns (ms st) name of
         None \<Rightarrow> (Inl (ColumnError name), st)
       | Some c \<Rightarrow>
           (case cells c of
              ComplexCells rows \<Rightarrow>
                if row < length rows then
                  (Inr (),
                   st\<lparr>ms := (ms st)\<lparr>columns :=
                     (columns (ms st))(name \<mapsto> c\<lparr>cells := ComplexCells (rows[row := arr])\<rparr>)\<rparr>\<rparr>)
                else (Inl (RowError row), st)
            | _ \<Rightarrow> (Inl (ColumnError name), st)))"

text \<open>A range-based \<^verbatim>\<open>for\<close> loop: the body runs on each element in order, and an
  exception ends the loop.\<close>

fun for_each :: "('a \<Rightarrow> unit io) \<Rightarrow> 'a list \<Rightarrow> unit io" where
  "for_each body [] st = (Inr (), st)"
| "for_each body (x # xs) st =
     (case body x st of
        (Inl e, st') \<Rightarrow> (Inl e, st')
      | (Inr _, st') \<Rightarrow> for_each body xs st')"

subsection \<open>Replacing flagged values by NaNs (lines 225 to 252)\<close>

text \<open>
  The inner loop (lines 238 to 247) walks \<^verbatim>\<open>dataArr\<close> with \<^verbatim>\<open>d\<close> and
  \<^verbatim>\<open>flagArr\<close> with \<^verbatim>\<open>f\<close> in step. It returns the new \<^verbatim>\<open>dataArr\<close> and
  \<^verbatim>\<open>isChanged\<close>, which is true when some visited flag was true. When the data array
  is longer than the flag array, \<^verbatim>\<open>*f\<close> is read past the end.
\<close>

fun replace_flagged :: "bool list \<Rightarrow> complex_float list \<Rightarrow> error + complex_float list \<times> bool" where
  "replace_flagged flagArr [] = Inr ([], False)"
| "replace_flagged [] (d # dataArr) = Inl FlagOverrun"
| "replace_flagged (f # flagArr) (d # dataArr) =
     (case replace_flagged flagArr dataArr of
        Inl e \<Rightarrow> Inl e
      | Inr (dataArr', isChanged) \<Rightarrow>
          Inr ((if f then Cplx quiet_NaN quiet_NaN else d) # dataArr', f \<or> isChanged))"

definition preprocess_row :: "string \<Rightarrow> nat \<Rightarrow> unit io" where
  \<comment> \<open>the body of the row loop, lines 236 to 249\<close>
  "preprocess_row columnName row =
     bind_io (get_data columnName row) (\<lambda>dataArr.
     bind_io (get_flag row) (\<lambda>flagArr.
       case replace_flagged flagArr dataArr of
         Inl e \<Rightarrow> throw_io e
       | Inr (dataArr', isChanged) \<Rightarrow>
           if isChanged then put_data columnName row dataArr' else return_io ()))"

definition preprocess_column :: "string \<Rightarrow> unit io" where
  \<comment> \<open>the body of the column loop, lines 228 to 251\<close>
  "preprocess_column columnName =
     (if columnName \<noteq> ''WEIGHT_SPECTRUM'' then
        bind_io (attach_complex columnName) (\<lambda>_.
        bind_io (attach_bool ''FLAG'') (\<lambda>_ st.
          for_each (preprocess_row columnName) [0 ..< nrow (ms st)] st))
      else return_io ())"

definition preprocess :: "string list \<Rightarrow> unit io" where
  "preprocess names = for_each preprocess_column names"

subsection \<open>The storage manager\<close>

text \<open>Modelled from the spec: the constructor and the setters of \<^verbatim>\<open>DyscoStMan\<close>
  (\<^verbatim>\<open>dyscostman.h\<close> is not among the sources). Section 4.1: a new manager is
  instantiated with the supplied bit-widths, then its distribution and normalization are
  set by setters, each overwriting an earlier choice; a data or weight bit-width of 0, or
  a degrees-of-freedom or truncation parameter that is not positive, is an invalid
  configuration and fails.\<close>

definition new_DyscoStMan :: "32 word \<Rightarrow> 32 word \<Rightarrow> DyscoStMan io" where
  "new_DyscoStMan bitsPerComplex bitsPerWeight_arg =
     bind_io (emit (EvNewDyscoStMan bitsPerComplex bitsPerWeight_arg)) (\<lambda>_.
       if bitsPerComplex = 0 \<or> bitsPerWeight_arg = 0 then throw_io ConfigurationError
       else return_io
         \<lparr>dataBitCount = bitsPerComplex, weightBitCount = bitsPerWeight_arg,
          distribution_of = None, normalization_of = None\<rparr>)"

definition SetGaussianDistribution :: "DyscoStMan \<Rightarrow> DyscoStMan io" where
  "SetGaussianDistribution dataManager =
     bind_io (emit EvSetGaussianDistribution) (\<lambda>_.
       return_io (dataManager\<lparr>distribution_of := Some Gaussian\<rparr>))"

definition SetUniformDistribution :: "DyscoStMan \<Rightarrow> DyscoStMan io" where
  "SetUniformDistribution dataManager =
     bind_io (emit EvSetUniformDistribution) (\<lambda>_.
       return_io (dataManager\<lparr>distribution_of := Some Uniform\<rparr>))"

definition SetStudentsTDistribution :: "real \<Rightarrow> DyscoStMan \<Rightarrow> DyscoStMan io" where
  "SetStudentsTDistribution nu dataManager =
     bind_io (emit (EvSetStudentsTDistribution nu)) (\<lambda>_.
       if nu \<le> 0 then throw_io ConfigurationError
       else return_io (dataManager\<lparr>distribution_of := Some (StudentsT nu)\<rparr>))"

definition SetTruncatedGaussianDistribution :: "real \<Rightarrow> DyscoStMan \<Rightarrow> DyscoStMan io" where
  "SetTruncatedGaussianDistribution truncation dataManager =
     bind_io (emit (EvSetTruncatedGaussianDistribution truncation)) (\<lambda>_.
       if truncation \<le> 0 then throw_io ConfigurationError
       else return_io (dataManager\<lparr>distribution_of := Some (TruncatedGaussian truncation)\<rparr>))"

definition SetNormalization :: "DyscoNormalization \<Rightarrow> DyscoStMan \<Rightarrow> DyscoStMan io" where
  "SetNormalization nm dataManager =
     bind_io (emit (EvSetNormalization nm)) (\<lambda>_.
       return_io (dataManager\<lparr>normalization_of := Some nm\<rparr>))"

subsection \<open>Managers and columns of the table\<close>

definition findDataManager :: "string \<Rightarrow> bool io" where
  \<comment> \<open>\<^verbatim>\<open>ms.findDataManager(name)\<close> throws when the table has no such manager; the
      result says whether it returned\<close>
  "findDataManager name st =
     (let found = (dataManagers (ms st) name \<noteq> None)
      in (Inr found, st\<lparr>events := events st @ [EvFindDataManager name found]\<rparr>))"

text \<open>Modelled from the spec: defining a column under a name (section 4.3 and the design
  note on column redefinition; the renaming that makes room for the new column is in
  \<^verbatim>\<open>stmanmodifier.h\<close>, which is not among the sources). A name in use by a different
  manager is redefined and the old column instance is kept as superseded; a name already
  bound to the target manager cannot be defined again. A new column has the shape of its
  description and, in each row, no value yet.\<close>

definition fresh_column :: "elem_type \<Rightarrow> IPosition \<Rightarrow> nat \<Rightarrow> column" where
  "fresh_column T shp n =
     \<lparr>dataManagerType = ''DyscoStMan'', cellShape = shp,
      cells = (case T of ComplexT \<Rightarrow> ComplexCells (replicate n []) | FloatT \<Rightarrow> FloatCells (replicate n []))\<rparr>"

definition define_column :: "elem_type \<Rightarrow> string \<Rightarrow> IPosition \<Rightarrow> table \<Rightarrow> error + table" where
  "define_column T name shp t =
     (case columns t name of
        None \<Rightarrow> Inr (t\<lparr>columns := (columns t)(name \<mapsto> fresh_column T shp (nrow t))\<rparr>)
      | Some old \<Rightarrow>
          if dataManagerType old = ''DyscoStMan'' then Inl (ColumnExists name)
          else Inr (t\<lparr>columns := (columns t)(name \<mapsto> fresh_column T shp (nrow t)),
                      superseded := (superseded t)(name \<mapsto> old)\<rparr>))"

definition addColumn :: "elem_type \<Rightarrow> string \<Rightarrow> IPosition \<Rightarrow> DyscoStMan \<Rightarrow> unit io" where
  \<comment> \<open>\<^verbatim>\<open>ms.addColumn(columnDesc, dataManager)\<close>: the manager is registered with the
      table under its name\<close>
  "addColumn T name shp dataManager =
     bind_io (emit (EvAddColumn T name)) (\<lambda>_ st.
       case define_column T name shp (ms st) of
         Inl e \<Rightarrow> (Inl e, st)
       | Inr t \<Rightarrow>
           (Inr (), st\<lparr>ms := t\<lparr>dataManagers := (dataManagers t)(''DyscoStMan'' \<mapsto> dataManager)\<rparr>\<rparr>))"

definition addColumnExisting :: "elem_type \<Rightarrow> string \<Rightarrow> IPosition \<Rightarrow> unit io" where
  \<comment> \<open>\<^verbatim>\<open>ms.addColumn(columnDesc, "DyscoStMan", false)\<close>: the column is bound to the
      manager that the table has\<close>
  "addColumnExisting T name shp =
     bind_io (emit (EvAddColumnExisting T name)) (\<lambda>_ st.
       case define_column T name shp (ms st) of
         Inl e \<Rightarrow> (Inl e, st)
       | Inr t \<Rightarrow> (Inr (), st\<lparr>ms := t\<rparr>))"

subsection \<open>createDyscoStManColumn (lines 17 to 59)\<close>

text \<open>
  The \<^verbatim>\<open>try\<close> block holds the query only, so the \<^verbatim>\<open>catch\<close> block runs exactly
  when the query threw, and an exception of the constructor, of a setter or of
  \<^verbatim>\<open>addColumn\<close> leaves the function. The parameters \<^verbatim>\<open>normalization\<close> and
  \<^verbatim>\<open>distribution\<close> are \<open>nm\<close> and \<open>distr\<close> here.
\<close>

definition createDyscoStManColumn ::
  "elem_type \<Rightarrow> string \<Rightarrow> IPosition \<Rightarrow> 32 word \<Rightarrow> 32 word \<Rightarrow> DyscoNormalization \<Rightarrow>
   DyscoDistribution \<Rightarrow> real \<Rightarrow> real \<Rightarrow> unit io"
where
  "createDyscoStManColumn T name shp bitsPerComplex bitsPerWeight_arg nm distr studentsTNu
       truncation =
     bind_io (findDataManager ''DyscoStMan'') (\<lambda>isAlreadyUsed.
       if \<not> isAlreadyUsed then
         bind_io (new_DyscoStMan bitsPerComplex bitsPerWeight_arg) (\<lambda>dataManager.
         bind_io
           (case distr of
              GaussianDistribution \<Rightarrow> SetGaussianDistribution dataManager
            | UniformDistribution \<Rightarrow> SetUniformDistribution dataManager
            | StudentsTDistribution \<Rightarrow> SetStudentsTDistribution studentsTNu dataManager
            | TruncatedGaussianDistribution \<Rightarrow>
                SetTruncatedGaussianDistribution truncation dataManager) (\<lambda>dataManager.
         bind_io (SetNormalization nm dataManager) (\<lambda>dataManager.
           addColumn T name shp dataManager)))
       else addColumnExisting T name shp)"

subsection \<open>The modifier\<close>

text \<open>Modelled from the spec: \<^verbatim>\<open>StManModifier::PrepareReplacingColumn\<close>
  (\<^verbatim>\<open>stmanmodifier.h\<close> is not among the sources). Section 4.3: inspect the current
  storage manager of the column; if it is already the target manager type, the column
  does not need replacement; otherwise record its shape. The shape must be identical and
  non-degenerate across the replaced columns; a shape or type mismatch is fatal. The
  table is inspected only.\<close>

definition column_of_type :: "elem_type \<Rightarrow> table \<Rightarrow> string \<Rightarrow> column option" where
  "column_of_type T t name =
     (case columns t name of
        None \<Rightarrow> None
      | Some c \<Rightarrow>
          (case (T, cells c) of
             (ComplexT, ComplexCells _) \<Rightarrow> Some c
           | (FloatT, FloatCells _) \<Rightarrow> Some c
           | _ \<Rightarrow> None))"

definition prepare_result ::
  "elem_type \<Rightarrow> string \<Rightarrow> string \<Rightarrow> IPosition \<Rightarrow> table \<Rightarrow> error + bool \<times> IPosition"
where
  "prepare_result T columnName newDataManager shp t =
     (case column_of_type T t columnName of
        None \<Rightarrow> Inl (ColumnError columnName)
      | Some c \<Rightarrow>
          if dataManagerType c = newDataManager then Inr (False, shp)
          else if cellShape c = [] \<or> 0 \<in> set (cellShape c) then Inl ShapeError
          else if shp \<noteq> [] \<and> shp \<noteq> cellShape c then Inl ShapeError
          else Inr (True, cellShape c))"

definition PrepareReplacingColumn ::
  "elem_type \<Rightarrow> string \<Rightarrow> string \<Rightarrow> 32 word \<Rightarrow> 32 word \<Rightarrow> IPosition \<Rightarrow> (bool \<times> IPosition) io"
where
  "PrepareReplacingColumn T columnName newDataManager bitsPerComplex bitsPerWeight_arg shp st =
     (let r = prepare_result T columnName newDataManager shp (ms st)
      in (r, st\<lparr>events := events st @
            [EvPrepareReplacingColumn T columnName
               (case r of Inl _ \<Rightarrow> None | Inr (replaced, _) \<Rightarrow> Some replaced)]\<rparr>))"

text \<open>Modelled from the spec: \<^verbatim>\<open>StManModifier::MoveColumnData\<close>. Section 4.3: copy
  every row's value from the old column instance to the new column instance, verbatim.\<close>

definition MoveColumnData :: "elem_type \<Rightarrow> string \<Rightarrow> unit io" where
  "MoveColumnData T columnName =
     bind_io (emit (EvMoveColumnData T columnName)) (\<lambda>_ st.
       case (superseded (ms st) columnName, column_of_type T (ms st) columnName) of
         (Some old, Some new) \<Rightarrow>
           (case (T, cells old) of
              (ComplexT, ComplexCells _) \<Rightarrow>
                (Inr (), st\<lparr>ms := (ms st)\<lparr>columns :=
                   (columns (ms st))(columnName \<mapsto> new\<lparr>cells := cells old\<rparr>)\<rparr>\<rparr>)
            | (FloatT, FloatCells _) \<Rightarrow>
                (Inr (), st\<lparr>ms := (ms st)\<lparr>columns :=
                   (columns (ms st))(columnName \<mapsto> new\<lparr>cells := cells old\<rparr>)\<rparr>\<rparr>)
            | _ \<Rightarrow> (Inl (ColumnError columnName), st))
       | _ \<Rightarrow> (Inl (ColumnError columnName), st))"

text \<open>Modelled from the spec: \<^verbatim>\<open>StManModifier::Reorder\<close>. Section 4.4: the physical
  storage is rewritten so that the space of every superseded column is reclaimed.\<close>

definition Reorder :: "string \<Rightarrow> unit io" where
  "Reorder msPath =
     bind_io (emit (EvReorder msPath)) (\<lambda>_ st.
       (Inr (), st\<lparr>ms := (ms st)\<lparr>superseded := Map.empty\<rparr>\<rparr>))"

subsection \<open>main (lines 66 to 295)\<close>

definition elem_type_of :: "string \<Rightarrow> elem_type" where
  \<comment> \<open>the template argument that each of the three loops picks for a column\<close>
  "elem_type_of columnName = (if columnName = ''WEIGHT_SPECTRUM'' then FloatT else ComplexT)"

text \<open>Lines 259 to 269, with the loop variables \<^verbatim>\<open>shape\<close> and
  \<^verbatim>\<open>isDataReplaced\<close>.\<close>

fun prepare_columns ::
  "request \<Rightarrow> string list \<Rightarrow> IPosition \<Rightarrow> bool \<Rightarrow> (IPosition \<times> bool) io"
where
  "prepare_columns rq [] shp isDataReplaced st = (Inr (shp, isDataReplaced), st)"
| "prepare_columns rq (columnName # rest) shp isDataReplaced st =
     (case PrepareReplacingColumn (elem_type_of columnName) columnName ''DyscoStMan''
             (bitsPerFloat rq) (bitsPerWeight rq) shp st of
        (Inl e, st') \<Rightarrow> (Inl e, st')
      | (Inr (replaced, shp'), st') \<Rightarrow>
          prepare_columns rq rest shp' (replaced \<or> isDataReplaced) st')"

text \<open>Lines 272 to 289, the body of \<^verbatim>\<open>if(isDataReplaced)\<close>. The degrees of freedom
  handed to \<^verbatim>\<open>createDyscoStManColumn\<close> are the literal \<^verbatim>\<open>1.0\<close>.\<close>

definition replace_columns :: "request \<Rightarrow> string \<Rightarrow> IPosition \<Rightarrow> unit io" where
  "replace_columns rq msPath shp =
     bind_io
       (for_each
          (\<lambda>columnName.
             createDyscoStManColumn (elem_type_of columnName) columnName shp (bitsPerFloat rq)
               (bitsPerWeight rq) (normalization rq) (distribution rq) 1
               (distributionTruncation rq))
          (columnNames rq)) (\<lambda>_.
     bind_io
       (for_each (\<lambda>columnName. MoveColumnData (elem_type_of columnName) columnName)
          (columnNames rq)) (\<lambda>_.
       if reorder rq then Reorder msPath else return_io ()))"

text \<open>Lines 224 to 290: what \<^verbatim>\<open>main\<close> does with the opened table.\<close>

definition migrate :: "request \<Rightarrow> string \<Rightarrow> unit io" where
  "migrate rq msPath =
     bind_io (preprocess (columnNames rq)) (\<lambda>_.
     bind_io (prepare_columns rq (columnNames rq) [] False) (\<lambda>(shp, isDataReplaced).
       if isDataReplaced then replace_columns rq msPath shp else return_io ()))"

text \<open>
  \<^verbatim>\<open>main\<close>, from the arguments \<^verbatim>\<open>argv[1]\<close> .. \<^verbatim>\<open>argv[argc - 1]\<close> and the tables
  stored under their paths, to the way it ends, the tables afterwards and the log of the
  run. Without arguments it prints the usage text and returns.
\<close>

definition main ::
  "(string \<Rightarrow> real) \<Rightarrow> string list \<Rightarrow> (string \<rightharpoonup> table) \<Rightarrow>
   (error + unit) \<times> (string \<rightharpoonup> table) \<times> event list"
where
  "main atof args fs =
     (if args = [] then (Inr (), fs, [])
      else
        case parse_args atof args of
          Inl e \<Rightarrow> (Inl e, fs, [])
        | Inr (rq, msPath) \<Rightarrow>
            (case fs msPath of
               None \<Rightarrow> (Inl (TableOpenError msPath), fs, [EvOpenMS msPath])
             | Some t \<Rightarrow>
                 (case migrate rq msPath \<lparr>ms = t, events = [EvOpenMS msPath]\<rparr> of
                    (r, st) \<Rightarrow> (r, fs(msPath \<mapsto> ms st), events st))))"

section \<open>Observations\<close>

text \<open>What the statements below read off a table and off a log.\<close>

definition NaN_cell :: complex_float where
  "NaN_cell = Cplx quiet_NaN quiet_NaN"

definition cell_at :: "table \<Rightarrow> string \<Rightarrow> nat \<Rightarrow> nat \<Rightarrow> complex_float option" where
  \<comment> \<open>cell \<open>i\<close> of row \<open>r\<close> of the complex column \<open>c\<close>, when there is one\<close>
  "cell_at t c r i =
     (case complex_rows t c of
        Inl _ \<Rightarrow> None
      | Inr rows \<Rightarrow>
          if r < length rows \<and> i < length (rows ! r) then Some (rows ! r ! i) else None)"

definition row_at :: "table \<Rightarrow> string \<Rightarrow> nat \<Rightarrow> complex_float list option" where
  \<comment> \<open>the array of row \<open>r\<close> of the complex column \<open>c\<close>, when there is one\<close>
  "row_at t c r =
     (case complex_rows t c of
        Inl _ \<Rightarrow> None
      | Inr rows \<Rightarrow> if r < length rows then Some (rows ! r) else None)"

definition flag_at :: "table \<Rightarrow> nat \<Rightarrow> nat \<Rightarrow> bool" where
  \<comment> \<open>the flag of cell \<open>i\<close> of row \<open>r\<close> is there and is true\<close>
  "flag_at t r i =
     (case bool_rows t ''FLAG'' of
        Inl _ \<Rightarrow> False
      | Inr flags \<Rightarrow> r < length flags \<and> i < length (flags ! r) \<and> flags ! r ! i)"

definition table_at :: "(string \<rightharpoonup> table) \<Rightarrow> string \<Rightarrow> table" where
  "table_at fs path = (case fs path of Some t \<Rightarrow> t | None \<Rightarrow> \<lparr>nrow = 0, columns = Map.empty, superseded = Map.empty, dataManagers = Map.empty\<rparr>)"


text \<open>The events of lines 271 to 290: manager query and creation, column creation, data
  move, reorder.\<close>

fun is_replacement :: "event \<Rightarrow> bool" where
  "is_replacement (EvFindDataManager n b) = True"
| "is_replacement (EvNewDyscoStMan b w) = True"
| "is_replacement EvSetGaussianDistribution = True"
| "is_replacement EvSetUniformDistribution = True"
| "is_replacement (EvSetStudentsTDistribution nu) = True"
| "is_replacement (EvSetTruncatedGaussianDistribution tr) = True"
| "is_replacement (EvSetNormalization nm) = True"
| "is_replacement (EvAddColumn T c) = True"
| "is_replacement (EvAddColumnExisting T c) = True"
| "is_replacement (EvMoveColumnData T c) = True"
| "is_replacement (EvReorder p) = True"
| "is_replacement _ = False"

fun is_prepare :: "event \<Rightarrow> bool" where
  "is_prepare (EvPrepareReplacingColumn T c r) = True"
| "is_prepare _ = False"


text \<open>The events that \<^verbatim>\<open>createDyscoStManColumn\<close> can log when it is called with
  the degrees of freedom \<open>nu\<close>, and the events of lines 271 to 290 for a request.\<close>

fun create_event :: "real \<Rightarrow> event \<Rightarrow> bool" where
  "create_event nu (EvFindDataManager n b) = True"
| "create_event nu (EvNewDyscoStMan b w) = True"
| "create_event nu EvSetGaussianDistribution = True"
| "create_event nu EvSetUniformDistribution = True"
| "create_event nu (EvSetStudentsTDistribution x) = (x = nu)"
| "create_event nu (EvSetTruncatedGaussianDistribution tr) = True"
| "create_event nu (EvSetNormalization nm) = True"
| "create_event nu (EvAddColumn T c) = True"
| "create_event nu (EvAddColumnExisting T c) = True"
| "create_event nu _ = False"

fun move_event :: "request \<Rightarrow> string \<Rightarrow> event \<Rightarrow> bool" where
  "move_event rq p (EvMoveColumnData T c) = True"
| "move_event rq p (EvReorder q) = (q = p \<and> reorder rq)"
| "move_event rq p _ = False"

definition replace_event :: "request \<Rightarrow> string \<Rightarrow> event \<Rightarrow> bool" where
  "replace_event rq p e \<longleftrightarrow> create_event 1 e \<or> move_event rq p e"

text \<open>The log grows by events that satisfy \<open>P\<close>.\<close>

definition extends :: "(event \<Rightarrow> bool) \<Rightarrow> state \<Rightarrow> state \<Rightarrow> bool" where
  "extends P st st' \<longleftrightarrow> (\<exists>evs. events st' = events st @ evs \<and> (\<forall>e\<in>set evs. P e))"

definition new_events :: "state \<Rightarrow> state \<Rightarrow> event list" where
  "new_events st st' = drop (length (events st)) (events st')"

text \<open>An event that the preprocessing pass can log on a table with the flags of \<open>t\<close>:
  it never names the weight column, nothing is put to the flag column, and an array that
  is put back has a flagged cell that holds the sentinel.\<close>

fun pass_event :: "table \<Rightarrow> event \<Rightarrow> bool" where
  "pass_event t (EvGetData c r) = (c \<noteq> ''WEIGHT_SPECTRUM'')"
| "pass_event t (EvGetFlag r) = True"
| "pass_event t (EvPutData c r arr) =
     (c \<noteq> ''WEIGHT_SPECTRUM'' \<and> c \<noteq> ''FLAG'' \<and>
      (\<exists>i<length arr. flag_at t r i \<and> arr ! i = NaN_cell))"
| "pass_event t _ = False"

text \<open>What every part of the preprocessing pass does to the state: the row count, the
  managers, the flag column and the weight column stay; a cell stays or, when it is
  flagged, becomes the sentinel; the log grows by events of the pass.\<close>

definition pass_rel :: "state \<Rightarrow> state \<Rightarrow> bool" where
  "pass_rel st st' \<longleftrightarrow>
     nrow (ms st') = nrow (ms st) \<and>
     superseded (ms st') = superseded (ms st) \<and>
     dataManagers (ms st') = dataManagers (ms st) \<and>
     columns (ms st') ''FLAG'' = columns (ms st) ''FLAG'' \<and>
     columns (ms st') ''WEIGHT_SPECTRUM'' = columns (ms st) ''WEIGHT_SPECTRUM'' \<and>
     (\<forall>c r i. cell_at (ms st') c r i = cell_at (ms st) c r i \<or>
        (flag_at (ms st) r i \<and> cell_at (ms st) c r i \<noteq> None \<and>
         cell_at (ms st') c r i = Some NaN_cell)) \<and>
     extends (pass_event (ms st)) st st'"

text \<open>Row \<open>r\<close> of column \<open>c\<close> is done: its flagged cells hold the sentinel, and the row
  and, right after it, its flags have been read.\<close>

definition row_done :: "state \<Rightarrow> string \<Rightarrow> nat \<Rightarrow> state \<Rightarrow> bool" where
  "row_done st0 c r st \<longleftrightarrow>
     (\<forall>i. flag_at (ms st) r i \<and> cell_at (ms st) c r i \<noteq> None \<longrightarrow>
        cell_at (ms st) c r i = Some NaN_cell) \<and>
     (\<exists>pre post. new_events st0 st = pre @ EvGetData c r # EvGetFlag r # post)"

text \<open>Column \<open>c\<close> is done: unless it is the weight column, it is not the flag column
  and each of its rows is done.\<close>

definition column_done :: "state \<Rightarrow> string \<Rightarrow> state \<Rightarrow> bool" where
  "column_done st0 c s \<longleftrightarrow>
     (c \<noteq> ''WEIGHT_SPECTRUM'' \<longrightarrow> c \<noteq> ''FLAG'' \<and> (\<forall>r<nrow (ms s). row_done st0 c r s))"

subsection \<open>Example tables\<close>

text \<open>A table of two rows with a complex column \<open>DATA\<close> and a weight column of two
  cells per row, stored by a standard manager, in which the second cell of the first row
  is flagged.\<close>

definition ex_data :: column where
  "ex_data =
     \<lparr>dataManagerType = ''StandardStMan'', cellShape = [2],
      cells = ComplexCells [[Cplx 1 2, Cplx 3 4], [Cplx 5 6, Cplx 7 8]]\<rparr>"

definition ex_flag :: column where
  "ex_flag =
     \<lparr>dataManagerType = ''StandardStMan'', cellShape = [2],
      cells = BoolCells [[False, True], [False, False]]\<rparr>"

definition ex_weight :: column where
  "ex_weight =
     \<lparr>dataManagerType = ''StandardStMan'', cellShape = [2],
      cells = FloatCells [[0x3F800000, 0x3F800000], [0x3F800000, 0x3F800000]]\<rparr>"

definition ex_ms :: table where
  "ex_ms =
     \<lparr>nrow = 2,
      columns = [''DATA'' \<mapsto> ex_data, ''FLAG'' \<mapsto> ex_flag, ''WEIGHT_SPECTRUM'' \<mapsto> ex_weight],
      superseded = Map.empty, dataManagers = Map.empty\<rparr>"

text \<open>The same table when the flagged cell holds the sentinel already, as after an
  earlier pass.\<close>

definition ex_ms_sentinel :: table where
  "ex_ms_sentinel =
     ex_ms\<lparr>columns := (columns ex_ms)(''DATA'' \<mapsto>
       ex_data\<lparr>cells := ComplexCells
         [[Cplx 1 2, Cplx quiet_NaN quiet_NaN], [Cplx 5 6, Cplx 7 8]]\<rparr>)\<rparr>"

text \<open>The same table with no flag set.\<close>

definition ex_ms_unflagged :: table where
  "ex_ms_unflagged =
     ex_ms\<lparr>columns := (columns ex_ms)(''FLAG'' \<mapsto>
       ex_flag\<lparr>cells := BoolCells [[False, False], [False, False]]\<rparr>)\<rparr>"

text \<open>The same table after a migration of \<open>DATA\<close>: the column is bound to the Dysco
  manager, which the table has.\<close>

definition ex_stman :: DyscoStMan where
  "ex_stman =
     \<lparr>dataBitCount = 8, weightBitCount = 12,
      distribution_of = Some (TruncatedGaussian (5 / 2)),
      normalization_of = Some AFNormalization\<rparr>"

definition ex_ms_migrated :: table where
  "ex_ms_migrated =
     \<lparr>nrow = 2,
      columns = [''DATA'' \<mapsto> ex_data\<lparr>dataManagerType := ''DyscoStMan''\<rparr>, ''FLAG'' \<mapsto> ex_flag,
        ''WEIGHT_SPECTRUM'' \<mapsto> ex_weight],
      superseded = Map.empty, dataManagers = [''DyscoStMan'' \<mapsto> ex_stman]\<rparr>"

definition ex_fs :: "string \<rightharpoonup> table" where
  "ex_fs = [''t.ms'' \<mapsto> ex_ms, ''m.ms'' \<mapsto> ex_ms_migrated, ''u.ms'' \<mapsto> ex_ms_unflagged]"

definition ex_atof :: "string \<Rightarrow> real" where
  "ex_atof s = 0"

definition ex_state :: state where
  "ex_state = \<lparr>ms = ex_ms, events = []\<rparr>"

definition ex_state_sentinel :: state where
  "ex_state_sentinel = \<lparr>ms = ex_ms_sentinel, events = []\<rparr>"

definition ex_state_unflagged :: state where
  "ex_state_unflagged = \<lparr>ms = ex_ms_unflagged, events = []\<rparr>"

definition ex_state_migrated :: state where
  "ex_state_migrated = \<lparr>ms = ex_ms_migrated, events = []\<rparr>"

section \<open>The preprocessing pass\<close>

subsection \<open>The inner loop, and reading and writing a row\<close>

lemma replace_flagged_Inr:
  "replace_flagged f d = Inr (d', ch) \<Longrightarrow>
     length d \<le> length f \<and> length d' = length d \<and>
     (\<forall>i<length d. d' ! i = (if f ! i then NaN_cell else d ! i)) \<and>
     (ch \<longleftrightarrow> (\<exists>i<length d. f ! i))"
proof (induction f d arbitrary: d' ch rule: replace_flagged.induct)
  case (1 flagArr)
  then show ?case by simp
next
  case (2 d dataArr)
  then show ?case by simp
next
  case (3 f flagArr d dataArr)
  from "3.prems" obtain ds c where
    rec: "replace_flagged flagArr dataArr = Inr (ds, c)"
    and d': "d' = (if f then Cplx quiet_NaN quiet_NaN else d) # ds"
    and ch: "ch = (f \<or> c)"
    by (auto split: sum.splits)
  from "3.IH" [OF rec] show ?case
    by (simp add: d' ch NaN_cell_def All_less_Suc2 Ex_less_Suc2)
qed

lemma get_data_res:
  "get_data c r st = (res, st') \<Longrightarrow>
     ms st' = ms st \<and> events st' = events st @ [EvGetData c r] \<and>
     (\<forall>d. res = Inr d \<longrightarrow> (\<exists>rows. complex_rows (ms st) c = Inr rows \<and> r < length rows \<and> d = rows ! r))"
  by (auto simp: get_data_def bind_io_def emit_def split: sum.splits if_splits)

lemma get_flag_res:
  "get_flag r st = (res, st') \<Longrightarrow>
     ms st' = ms st \<and> events st' = events st @ [EvGetFlag r] \<and>
     (\<forall>f. res = Inr f \<longrightarrow> (\<exists>flags. bool_rows (ms st) ''FLAG'' = Inr flags \<and> r < length flags \<and> f = flags ! r))"
  by (auto simp: get_flag_def bind_io_def emit_def split: sum.splits if_splits)

lemma put_data_fail:
  "put_data c r arr st = (Inl e, st') \<Longrightarrow> ms st' = ms st \<and> events st' = events st @ [EvPutData c r arr]"
  by (auto simp: put_data_def bind_io_def emit_def split: sum.splits if_splits option.splits cells.splits)

lemma put_data_ok:
  "put_data c r arr st = (Inr u, st') \<Longrightarrow>
     events st' = events st @ [EvPutData c r arr] \<and>
     (\<exists>col rows. columns (ms st) c = Some col \<and> cells col = ComplexCells rows \<and> r < length rows \<and>
        ms st' = (ms st)\<lparr>columns := (columns (ms st))(c \<mapsto> col\<lparr>cells := ComplexCells (rows[r := arr])\<rparr>)\<rparr>)"
  by (auto simp: put_data_def bind_io_def emit_def split: sum.splits if_splits option.splits cells.splits)

lemma complex_rows_upd:
  "columns t c = Some col \<Longrightarrow> cells col = ComplexCells rows \<Longrightarrow>
   complex_rows (t\<lparr>columns := (columns t)(c \<mapsto> col\<lparr>cells := ComplexCells rows'\<rparr>)\<rparr>) c' =
     (if c' = c then Inr rows' else complex_rows t c')"
  by (simp add: complex_rows_def)

lemma bool_rows_upd:
  "columns t c = Some col \<Longrightarrow> cells col = ComplexCells rows \<Longrightarrow>
   bool_rows (t\<lparr>columns := (columns t)(c \<mapsto> col\<lparr>cells := ComplexCells rows'\<rparr>)\<rparr>) c' = bool_rows t c'"
  by (simp add: bool_rows_def)

lemma extends_refl: "extends P st st"
  by (simp add: extends_def)

lemma extends_trans: "extends P a b \<Longrightarrow> extends P b c \<Longrightarrow> extends P a c"
  by (auto simp: extends_def)

lemma extends_mono: "extends P a b \<Longrightarrow> (\<And>e. P e \<Longrightarrow> Q e) \<Longrightarrow> extends Q a b"
  by (auto simp: extends_def)

lemma extends_new_events: "extends P a b \<Longrightarrow> events b = events a @ new_events a b \<and> (\<forall>e\<in>set (new_events a b). P e)"
  by (auto simp: extends_def new_events_def)

lemma flag_at_cong: "columns t' ''FLAG'' = columns t ''FLAG'' \<Longrightarrow> flag_at t' = flag_at t"
  by (intro ext) (simp add: flag_at_def bool_rows_def)

lemma pass_event_cong: "flag_at t' = flag_at t \<Longrightarrow> pass_event t' e = pass_event t e"
  by (cases e) simp_all

lemma pass_rel_refl: "pass_rel st st"
  by (simp add: pass_rel_def extends_refl)

lemma pass_rel_trans:
  assumes ab: "pass_rel s1 s2" and bc: "pass_rel s2 s3"
  shows "pass_rel s1 s3"
proof -
  have fl: "flag_at (ms s2) = flag_at (ms s1)"
    using ab by (intro flag_at_cong) (simp add: pass_rel_def)
  have "pass_event (ms s2) = pass_event (ms s1)"
    using fl by (intro ext) (rule pass_event_cong)
  then have ev: "extends (pass_event (ms s1)) s2 s3"
    using bc by (simp add: pass_rel_def)
  have cellsab: "cell_at (ms s2) c r i = cell_at (ms s1) c r i \<or>
        (flag_at (ms s1) r i \<and> cell_at (ms s1) c r i \<noteq> None \<and> cell_at (ms s2) c r i = Some NaN_cell)"
    for c r i
    using ab by (simp add: pass_rel_def)
  have cellsbc: "cell_at (ms s3) c r i = cell_at (ms s2) c r i \<or>
        (flag_at (ms s1) r i \<and> cell_at (ms s2) c r i \<noteq> None \<and> cell_at (ms s3) c r i = Some NaN_cell)"
    for c r i
    using bc fl by (simp add: pass_rel_def)
  have cells: "cell_at (ms s3) c r i = cell_at (ms s1) c r i \<or>
        (flag_at (ms s1) r i \<and> cell_at (ms s1) c r i \<noteq> None \<and> cell_at (ms s3) c r i = Some NaN_cell)"
    for c r i
    using cellsab [of c r i] cellsbc [of c r i]
    by (cases "cell_at (ms s1) c r i"; cases "cell_at (ms s2) c r i") auto
  from ab bc have frame: "nrow (ms s3) = nrow (ms s1)" "superseded (ms s3) = superseded (ms s1)"
    "dataManagers (ms s3) = dataManagers (ms s1)" "columns (ms s3) ''FLAG'' = columns (ms s1) ''FLAG''"
    "columns (ms s3) ''WEIGHT_SPECTRUM'' = columns (ms s1) ''WEIGHT_SPECTRUM''"
    by (simp_all add: pass_rel_def)
  from ab have "extends (pass_event (ms s1)) s1 s2" by (simp add: pass_rel_def)
  from this ev have "extends (pass_event (ms s1)) s1 s3" by (rule extends_trans)
  with frame cells show ?thesis unfolding pass_rel_def by blast
qed

lemma for_each_rel:
  assumes step: "\<And>x s r s'. x \<in> set xs \<Longrightarrow> body x s = (r, s') \<Longrightarrow> R s s'"
    and refl: "\<And>s. R s s"
    and trans: "\<And>a b c. R a b \<Longrightarrow> R b c \<Longrightarrow> R a c"
    and run: "for_each body xs st = (res, st')"
  shows "R st st'"
  using step run
proof (induction xs arbitrary: st)
  case Nil
  then show ?case using refl by simp
next
  case (Cons x xs)
  obtain r1 s1 where b: "body x st = (r1, s1)" by (cases "body x st")
  have R1: "R st s1" using Cons.prems(1) [of x st r1 s1] b by simp
  show ?case
  proof (cases r1)
    case (Inl e)
    with Cons.prems(2) b have "st' = s1" by simp
    with R1 show ?thesis by simp
  next
    case (Inr u)
    with Cons.prems(2) b have "for_each body xs s1 = (res, st')" by simp
    have "R s1 st'"
    proof (rule Cons.IH)
      show "\<And>y s r s'. y \<in> set xs \<Longrightarrow> body y s = (r, s') \<Longrightarrow> R s s'"
        by (rule Cons.prems(1)) simp_all
      show "for_each body xs s1 = (res, st')" by fact
    qed
    with R1 show ?thesis by (rule trans)
  qed
qed

lemma for_each_done:
  assumes step: "\<And>x s r s'. x \<in> set xs \<Longrightarrow> body x s = (r, s') \<Longrightarrow> R s s'"
    and est: "\<And>x s s'. x \<in> set xs \<Longrightarrow> R st s \<Longrightarrow> body x s = (Inr (), s') \<Longrightarrow> D x s'"
    and pres: "\<And>x s s'. D x s \<Longrightarrow> R s s' \<Longrightarrow> D x s'"
    and refl: "\<And>s. R s s"
    and trans: "\<And>a b c. R a b \<Longrightarrow> R b c \<Longrightarrow> R a c"
    and run: "for_each body xs st = (Inr (), st')"
  shows "\<forall>x\<in>set xs. D x st'"
  using step est run
proof (induction xs arbitrary: st)
  case Nil
  then show ?case by simp
next
  case (Cons x xs)
  obtain r1 s1 where b: "body x st = (r1, s1)" by (cases "body x st")
  with Cons.prems(3) have r1: "r1 = Inr ()" and rest: "for_each body xs s1 = (Inr (), st')"
    by (auto split: sum.splits)
  have R1: "R st s1" using Cons.prems(1) [of x st r1 s1] b by simp
  have Dx: "D x s1" using Cons.prems(2) [of x st s1] b r1 refl by simp
  have Rrest: "R s1 st'"
  proof (rule for_each_rel [of xs body R s1 "Inr ()" st'])
    show "\<And>y s r s'. y \<in> set xs \<Longrightarrow> body y s = (r, s') \<Longrightarrow> R s s'"
      by (rule Cons.prems(1)) simp_all
    show "\<And>a b c. R a b \<Longrightarrow> R b c \<Longrightarrow> R a c" by (rule trans)
  qed (rule refl, rule rest)
  have "\<forall>y\<in>set xs. D y st'"
  proof (rule Cons.IH)
    show "\<And>y s r s'. y \<in> set xs \<Longrightarrow> body y s = (r, s') \<Longrightarrow> R s s'"
      by (rule Cons.prems(1)) simp_all
    show "\<And>y s s'. y \<in> set xs \<Longrightarrow> R s1 s \<Longrightarrow> body y s = (Inr (), s') \<Longrightarrow> D y s'"
    proof -
      fix y s s'
      assume y: "y \<in> set xs" and R: "R s1 s" and by': "body y s = (Inr (), s')"
      from R1 R have "R st s" by (rule trans)
      with y by' show "D y s'" using Cons.prems(2) [of y s s'] by simp
    qed
    show "for_each body xs s1 = (Inr (), st')" by (rule rest)
  qed
  moreover have "D x st'" using Dx Rrest by (rule pres)
  ultimately show ?case by simp
qed

lemma get_data_err: "get_data c r st = (Inl e, st') \<Longrightarrow> e \<noteq> ConfigurationError"
  by (auto simp: get_data_def bind_io_def emit_def complex_rows_def
      split: sum.splits if_splits option.splits cells.splits)

lemma get_flag_err: "get_flag r st = (Inl e, st') \<Longrightarrow> e \<noteq> ConfigurationError"
  by (auto simp: get_flag_def bind_io_def emit_def bool_rows_def
      split: sum.splits if_splits option.splits cells.splits)

lemma put_data_err: "put_data c r arr st = (Inl e, st') \<Longrightarrow> e \<noteq> ConfigurationError"
  by (auto simp: put_data_def bind_io_def emit_def
      split: sum.splits if_splits option.splits cells.splits)

lemma replace_flagged_err: "replace_flagged f d = Inl e \<Longrightarrow> e = FlagOverrun"
  by (induction f d rule: replace_flagged.induct) (auto split: sum.splits)

lemma preprocess_row_cases:
  assumes run: "preprocess_row c r st = (res, st')"
  shows
    "(ms st' = ms st \<and> (\<exists>e. res = Inl e \<and> e \<noteq> ConfigurationError) \<and>
        (\<exists>evs. events st' = events st @ EvGetData c r # evs \<and>
           (\<forall>ev\<in>set evs. ev = EvGetFlag r \<or>
              (\<exists>arr. ev = EvPutData c r arr \<and> c \<noteq> ''FLAG'' \<and>
                 (\<exists>i<length arr. flag_at (ms st) r i \<and> arr ! i = NaN_cell))))) \<or>
     (ms st' = ms st \<and> res = Inr () \<and>
        events st' = events st @ [EvGetData c r, EvGetFlag r] \<and>
        (\<forall>i. flag_at (ms st) r i \<longrightarrow> cell_at (ms st) c r i = None)) \<or>
     (res = Inr () \<and>
        (\<exists>arr col rows.
           events st' = events st @ [EvGetData c r, EvGetFlag r, EvPutData c r arr] \<and>
           (\<exists>i<length arr. flag_at (ms st) r i \<and> arr ! i = NaN_cell) \<and>
           columns (ms st) c = Some col \<and> cells col = ComplexCells rows \<and> r < length rows \<and>
           c \<noteq> ''FLAG'' \<and> length arr = length (rows ! r) \<and>
           (\<forall>i<length arr. arr ! i = (if flag_at (ms st) r i then NaN_cell else rows ! r ! i)) \<and>
           ms st' = (ms st)\<lparr>columns :=
             (columns (ms st))(c \<mapsto> col\<lparr>cells := ComplexCells (rows[r := arr])\<rparr>)\<rparr>))"
    (is "?A \<or> ?B \<or> ?C")
proof -
  obtain r1 s1 where g1: "get_data c r st = (r1, s1)" by (cases "get_data c r st")
  note G = get_data_res [OF g1]
  show ?thesis
  proof (cases r1)
    case (Inl e)
    with run g1 have "res = Inl e" "st' = s1"
      by (simp_all add: preprocess_row_def bind_io_def)
    moreover have "e \<noteq> ConfigurationError" using g1 Inl get_data_err by blast
    ultimately have ?A using G by simp
    then show ?thesis ..
  next
    case (Inr d)
    obtain rows where rows: "complex_rows (ms st) c = Inr rows" "r < length rows" "d = rows ! r"
      using G Inr by auto
    obtain r2 s2 where g2: "get_flag r s1 = (r2, s2)" by (cases "get_flag r s1")
    note F = get_flag_res [OF g2]
    have ms2: "ms s2 = ms st" using F G by simp
    have ev2: "events s2 = events st @ [EvGetData c r, EvGetFlag r]" using F G by simp
    show ?thesis
    proof (cases r2)
      case (Inl e)
      with run g1 \<open>r1 = Inr d\<close> g2 have "res = Inl e" "st' = s2"
        by (simp_all add: preprocess_row_def bind_io_def)
      moreover have "e \<noteq> ConfigurationError" using g2 Inl get_flag_err by blast
      ultimately have ?A using ms2 ev2 by simp
      then show ?thesis ..
    next
      case (Inr f)
      obtain flags where flags: "bool_rows (ms st) ''FLAG'' = Inr flags" "r < length flags"
          "f = flags ! r"
        using F Inr G by auto
      show ?thesis
      proof (cases "replace_flagged f d")
        case (Inl e)
        with run g1 \<open>r1 = Inr d\<close> g2 \<open>r2 = Inr f\<close> have "res = Inl e" "st' = s2"
          by (simp_all add: preprocess_row_def bind_io_def throw_io_def)
        moreover have "e \<noteq> ConfigurationError" using replace_flagged_err [OF Inl] by simp
        ultimately have ?A using ms2 ev2 by simp
        then show ?thesis ..
      next
        case (Inr p)
        obtain d' ch where p: "p = (d', ch)" by (cases p)
        have rf: "replace_flagged f d = Inr (d', ch)" using Inr p by simp
        note RF = replace_flagged_Inr [OF rf]
        have flag_eq: "flag_at (ms st) r i = f ! i" if "i < length d" for i
          using that flags RF by (simp add: flag_at_def)
        have cell_eq: "cell_at (ms st) c r i = (if i < length d then Some (d ! i) else None)" for i
          using rows by (simp add: cell_at_def)
        show ?thesis
        proof (cases ch)
          case False
          with run g1 \<open>r1 = Inr d\<close> g2 \<open>r2 = Inr f\<close> rf have "res = Inr ()" "st' = s2"
            by (simp_all add: preprocess_row_def bind_io_def return_io_def)
          moreover have "\<forall>i. flag_at (ms st) r i \<longrightarrow> cell_at (ms st) c r i = None"
            using False RF flag_eq cell_eq by auto
          ultimately have ?B using ms2 ev2 by simp
          then show ?thesis by blast
        next
          case True
          with run g1 \<open>r1 = Inr d\<close> g2 \<open>r2 = Inr f\<close> rf have pd: "put_data c r d' s2 = (res, st')"
            by (simp add: preprocess_row_def bind_io_def)
          from True RF obtain i0 where i0: "i0 < length d" "f ! i0" by auto
          then have ok: "\<exists>i<length d'. flag_at (ms st) r i \<and> d' ! i = NaN_cell"
            using RF flag_eq by auto
          have nf: "c \<noteq> ''FLAG''"
            using rows(1) flags(1)
            by (auto simp: complex_rows_def bool_rows_def split: option.splits cells.splits)
          show ?thesis
          proof (cases res)
            case (Inl e)
            with pd have "ms st' = ms st" "events st' = events st @ EvGetData c r # [EvGetFlag r, EvPutData c r d']"
              using put_data_fail [of c r d' s2 e st'] ms2 ev2 by simp_all
            moreover have "e \<noteq> ConfigurationError" using pd Inl put_data_err by blast
            ultimately have ?A using Inl ok nf by auto
            then show ?thesis ..
          next
            case (Inr u)
            with pd obtain col rows' where
              pe: "events st' = events s2 @ [EvPutData c r d']" and
              col: "columns (ms s2) c = Some col" "cells col = ComplexCells rows'" "r < length rows'" and
              upd: "ms st' = (ms s2)\<lparr>columns := (columns (ms s2))(c \<mapsto> col\<lparr>cells := ComplexCells (rows'[r := d'])\<rparr>)\<rparr>"
              using put_data_ok [of c r d' s2 u st'] by auto
            have same: "rows' = rows" using col rows ms2 by (simp add: complex_rows_def)
            have vals: "\<forall>i<length d'. d' ! i = (if flag_at (ms st) r i then NaN_cell else rows ! r ! i)"
              using RF flag_eq rows by simp
            have "?C"
              using Inr pe ev2 ok col same nf RF rows vals upd ms2
              by (intro conjI exI [of _ d'] exI [of _ col] exI [of _ rows]) simp_all
            then show ?thesis by blast
          qed
        qed
      qed
    qed
  qed
qed

lemma for_each_err:
  assumes step: "\<And>x s e s'. x \<in> set xs \<Longrightarrow> body x s = (Inl e, s') \<Longrightarrow> P e"
    and run: "for_each body xs st = (Inl e, st')"
  shows "P e"
  using step run
proof (induction xs arbitrary: st)
  case Nil
  then show ?case by simp
next
  case (Cons x xs)
  obtain r1 s1 where b: "body x st = (r1, s1)" by (cases "body x st")
  show ?case
  proof (cases r1)
    case (Inl e1)
    with Cons.prems(2) b have "e1 = e" by simp
    with Inl b show ?thesis using Cons.prems(1) [of x st e s1] by simp
  next
    case (Inr u)
    with Cons.prems(2) b have rest: "for_each body xs s1 = (Inl e, st')" by simp
    show ?thesis
    proof (rule Cons.IH)
      show "\<And>y s e s'. y \<in> set xs \<Longrightarrow> body y s = (Inl e, s') \<Longrightarrow> P e"
        by (rule Cons.prems(1)) simp_all
      show "for_each body xs s1 = (Inl e, st')" by (rule rest)
    qed
  qed
qed

lemma pass_event_put:
  "c \<noteq> ''WEIGHT_SPECTRUM'' \<Longrightarrow> c \<noteq> ''FLAG'' \<Longrightarrow>
   \<exists>i<length arr. flag_at t r i \<and> arr ! i = NaN_cell \<Longrightarrow>
     pass_event t (EvPutData c r arr)"
  by simp

lemma preprocess_row_rel:
  assumes nw: "c \<noteq> ''WEIGHT_SPECTRUM''" and run: "preprocess_row c r st = (res, st')"
  shows "pass_rel st st'"
proof -
  from preprocess_row_cases [OF run] consider
    (same) evs where "ms st' = ms st" "events st' = events st @ EvGetData c r # evs"
      "\<forall>ev\<in>set evs. ev = EvGetFlag r \<or>
         (\<exists>arr. ev = EvPutData c r arr \<and> c \<noteq> ''FLAG'' \<and>
            (\<exists>i<length arr. flag_at (ms st) r i \<and> arr ! i = NaN_cell))"
  | (put) arr col rows where
      "events st' = events st @ [EvGetData c r, EvGetFlag r, EvPutData c r arr]"
      "\<exists>i<length arr. flag_at (ms st) r i \<and> arr ! i = NaN_cell"
      "columns (ms st) c = Some col" "cells col = ComplexCells rows" "r < length rows"
      "c \<noteq> ''FLAG''" "length arr = length (rows ! r)"
      "\<forall>i<length arr. arr ! i = (if flag_at (ms st) r i then NaN_cell else rows ! r ! i)"
      "ms st' = (ms st)\<lparr>columns :=
             (columns (ms st))(c \<mapsto> col\<lparr>cells := ComplexCells (rows[r := arr])\<rparr>)\<rparr>"
    by fastforce
  then show ?thesis
  proof cases
    case same
    have pe: "pass_event (ms st) ev" if "ev \<in> set evs" for ev
    proof -
      from same(3) that have "ev = EvGetFlag r \<or>
         (\<exists>arr. ev = EvPutData c r arr \<and> c \<noteq> ''FLAG'' \<and>
            (\<exists>i<length arr. flag_at (ms st) r i \<and> arr ! i = NaN_cell))"
        by blast
      then show ?thesis using nw pass_event_put by (elim disjE) auto
    qed
    have "extends (pass_event (ms st)) st st'"
      unfolding extends_def using same(2) nw pe
      by (intro exI [of _ "EvGetData c r # evs"]) simp
    then show ?thesis using same(1) by (simp add: pass_rel_def)
  next
    case put
    have "pass_event (ms st) (EvPutData c r arr)"
      using nw put(6,2) by (rule pass_event_put)
    then have ext: "extends (pass_event (ms st)) st st'"
      unfolding extends_def using put(1) nw
      by (intro exI [of _ "[EvGetData c r, EvGetFlag r, EvPutData c r arr]"]) simp
    have cr: "complex_rows (ms st') c' = (if c' = c then Inr (rows[r := arr]) else complex_rows (ms st) c')" for c'
      unfolding put(9) using put(3,4) by (rule complex_rows_upd)
    have cr0: "complex_rows (ms st) c = Inr rows"
      using put(3,4) by (simp add: complex_rows_def)
    have cell: "cell_at (ms st') c' r' i = cell_at (ms st) c' r' i \<or>
        (flag_at (ms st) r' i \<and> cell_at (ms st) c' r' i \<noteq> None \<and>
         cell_at (ms st') c' r' i = Some NaN_cell)" for c' r' i
    proof (cases "c' = c \<and> r' = r")
      case False
      then have "cell_at (ms st') c' r' i = cell_at (ms st) c' r' i"
        using cr [of c'] cr0 by (auto simp: cell_at_def)
      then show ?thesis ..
    next
      case True
      then show ?thesis
        using cr [of c] cr0 put(5,7,8) by (auto simp: cell_at_def)
    qed
    show ?thesis
      unfolding pass_rel_def using ext cell put(6) nw by (simp add: put(9))
  qed
qed

lemma preprocess_row_done:
  assumes run: "preprocess_row c r st = (Inr (), st')"
  shows "(\<forall>i. flag_at (ms st') r i \<and> cell_at (ms st') c r i \<noteq> None \<longrightarrow>
            cell_at (ms st') c r i = Some NaN_cell) \<and>
         (\<exists>evs. events st' = events st @ EvGetData c r # EvGetFlag r # evs)"
proof -
  from preprocess_row_cases [OF run] consider
    (same) "ms st' = ms st" "events st' = events st @ [EvGetData c r, EvGetFlag r]"
      "\<forall>i. flag_at (ms st) r i \<longrightarrow> cell_at (ms st) c r i = None"
  | (put) arr col rows where
      "events st' = events st @ [EvGetData c r, EvGetFlag r, EvPutData c r arr]"
      "columns (ms st) c = Some col" "cells col = ComplexCells rows" "r < length rows"
      "c \<noteq> ''FLAG''" "length arr = length (rows ! r)"
      "\<forall>i<length arr. arr ! i = (if flag_at (ms st) r i then NaN_cell else rows ! r ! i)"
      "ms st' = (ms st)\<lparr>columns :=
             (columns (ms st))(c \<mapsto> col\<lparr>cells := ComplexCells (rows[r := arr])\<rparr>)\<rparr>"
    by fastforce
  then show ?thesis
  proof cases
    case same
    then show ?thesis by auto
  next
    case put
    have cr: "complex_rows (ms st') c = Inr (rows[r := arr])"
      unfolding put(8) using complex_rows_upd [OF put(2,3), of "rows[r := arr]" c] by simp
    have "columns (ms st') ''FLAG'' = columns (ms st) ''FLAG''"
      using put(5) by (simp add: put(8))
    then have fl: "flag_at (ms st') = flag_at (ms st)" by (rule flag_at_cong)
    have "\<forall>i. flag_at (ms st') r i \<and> cell_at (ms st') c r i \<noteq> None \<longrightarrow>
            cell_at (ms st') c r i = Some NaN_cell"
      using cr put(4,6,7) by (auto simp: cell_at_def fl)
    then show ?thesis using put(1) by simp
  qed
qed

lemma preprocess_row_err:
  "preprocess_row c r st = (Inl e, st') \<Longrightarrow> e \<noteq> ConfigurationError \<and> ms st' = ms st"
  using preprocess_row_cases [of c r st "Inl e" st'] by auto

lemma pass_rel_events:
  "pass_rel s s' \<Longrightarrow> \<exists>evs. events s' = events s @ evs"
  by (auto simp: pass_rel_def extends_def)

lemma new_events_mono:
  assumes "events s = events st0 @ evs0" and "events s' = events s @ evs"
  shows "new_events st0 s' = evs0 @ evs"
  using assms by (simp add: new_events_def)

lemma row_done_pres:
  assumes d: "row_done st0 c r s" and p: "pass_rel s s'"
  shows "row_done st0 c r s'"
proof -
  have fl: "flag_at (ms s') = flag_at (ms s)"
    using p by (intro flag_at_cong) (simp add: pass_rel_def)
  have cell: "cell_at (ms s') c r i = cell_at (ms s) c r i \<or>
        (flag_at (ms s) r i \<and> cell_at (ms s) c r i \<noteq> None \<and> cell_at (ms s') c r i = Some NaN_cell)"
    for i
    using p by (simp add: pass_rel_def)
  have a: "flag_at (ms s') r i \<and> cell_at (ms s') c r i \<noteq> None \<longrightarrow>
        cell_at (ms s') c r i = Some NaN_cell" for i
    using cell [of i] d by (auto simp: row_done_def fl)
  from p obtain evs where e: "events s' = events s @ evs" using pass_rel_events by blast
  from d obtain pre post where
    n: "new_events st0 s = pre @ EvGetData c r # EvGetFlag r # post"
    by (auto simp: row_done_def)
  have "new_events st0 s' =
      new_events st0 s @ drop (length (events st0) - length (events s)) evs"
    using e by (simp add: new_events_def)
  then have "new_events st0 s' =
      pre @ EvGetData c r # EvGetFlag r #
        (post @ drop (length (events st0) - length (events s)) evs)"
    using n by simp
  then have "\<exists>pre post. new_events st0 s' = pre @ EvGetData c r # EvGetFlag r # post"
    by blast
  then show ?thesis using a by (simp add: row_done_def)
qed

lemma row_done_est:
  assumes p: "pass_rel st0 s" and run: "preprocess_row c r s = (Inr (), s')"
  shows "row_done st0 c r s'"
proof -
  from p obtain evs0 where e0: "events s = events st0 @ evs0" using pass_rel_events by blast
  from preprocess_row_done [OF run] obtain evs where
    cells: "\<forall>i. flag_at (ms s') r i \<and> cell_at (ms s') c r i \<noteq> None \<longrightarrow>
            cell_at (ms s') c r i = Some NaN_cell"
    and e1: "events s' = events s @ EvGetData c r # EvGetFlag r # evs"
    by blast
  have "new_events st0 s' = evs0 @ EvGetData c r # EvGetFlag r # evs"
    using e0 e1 by (rule new_events_mono)
  then have "\<exists>pre post. new_events st0 s' = pre @ EvGetData c r # EvGetFlag r # post"
    by blast
  then show ?thesis using cells by (simp add: row_done_def)
qed

lemma preprocess_column_unfold:
  assumes run: "preprocess_column c st = (res, st')"
  shows "(c = ''WEIGHT_SPECTRUM'' \<and> res = Inr () \<and> st' = st) \<or>
         (c \<noteq> ''WEIGHT_SPECTRUM'' \<and> st' = st \<and> (\<exists>e. res = Inl e \<and> e \<noteq> ConfigurationError)) \<or>
         (c \<noteq> ''WEIGHT_SPECTRUM'' \<and> c \<noteq> ''FLAG'' \<and>
          for_each (preprocess_row c) [0 ..< nrow (ms st)] st = (res, st'))"
  using run
  by (auto simp: preprocess_column_def bind_io_def return_io_def attach_complex_def
      attach_bool_def complex_rows_def bool_rows_def
      split: if_splits sum.splits option.splits cells.splits)

lemma preprocess_column_rel:
  assumes run: "preprocess_column c st = (res, st')"
  shows "pass_rel st st'"
proof -
  from preprocess_column_unfold [OF run] consider
    "st' = st" | "c \<noteq> ''WEIGHT_SPECTRUM''"
      "for_each (preprocess_row c) [0 ..< nrow (ms st)] st = (res, st')"
    by blast
  then show ?thesis
  proof cases
    case 1
    then show ?thesis by (simp add: pass_rel_refl)
  next
    case 2
    show ?thesis
    proof (rule for_each_rel [OF _ _ _ 2(2)])
      show "\<And>x s r s'. preprocess_row c x s = (r, s') \<Longrightarrow> pass_rel s s'"
        using 2(1) by (rule preprocess_row_rel)
      show "\<And>s. pass_rel s s" by (rule pass_rel_refl)
      show "\<And>a b d. pass_rel a b \<Longrightarrow> pass_rel b d \<Longrightarrow> pass_rel a d" by (rule pass_rel_trans)
    qed
  qed
qed

lemma preprocess_column_err:
  assumes run: "preprocess_column c st = (Inl e, st')"
  shows "e \<noteq> ConfigurationError"
proof -
  from preprocess_column_unfold [OF run] consider
    "e \<noteq> ConfigurationError"
    | "for_each (preprocess_row c) [0 ..< nrow (ms st)] st = (Inl e, st')"
    by blast
  then show ?thesis
  proof cases
    case 1
    then show ?thesis .
  next
    case 2
    show ?thesis
      by (rule for_each_err [OF _ 2]) (simp add: preprocess_row_err)
  qed
qed

lemma preprocess_column_done:
  assumes p: "pass_rel st0 st" and run: "preprocess_column c st = (Inr (), st')"
  shows "column_done st0 c st'"
proof (cases "c = ''WEIGHT_SPECTRUM''")
  case True
  then show ?thesis by (simp add: column_done_def)
next
  case False
  with preprocess_column_unfold [OF run] have nf: "c \<noteq> ''FLAG''"
    and loop: "for_each (preprocess_row c) [0 ..< nrow (ms st)] st = (Inr (), st')"
    by auto
  have "\<forall>r\<in>set [0 ..< nrow (ms st)]. row_done st0 c r st'"
  proof (rule for_each_done [where R = pass_rel, OF _ _ _ _ _ loop])
    show "\<And>x s r s'. preprocess_row c x s = (r, s') \<Longrightarrow> pass_rel s s'"
      using False by (rule preprocess_row_rel)
    show "\<And>x s s'. pass_rel st s \<Longrightarrow> preprocess_row c x s = (Inr (), s') \<Longrightarrow> row_done st0 c x s'"
      using p pass_rel_trans row_done_est by blast
    show "\<And>x s s'. row_done st0 c x s \<Longrightarrow> pass_rel s s' \<Longrightarrow> row_done st0 c x s'"
      by (rule row_done_pres)
    show "\<And>s. pass_rel s s" by (rule pass_rel_refl)
    show "\<And>a b d. pass_rel a b \<Longrightarrow> pass_rel b d \<Longrightarrow> pass_rel a d" by (rule pass_rel_trans)
  qed
  moreover have "nrow (ms st') = nrow (ms st)"
    using preprocess_column_rel [OF run] by (simp add: pass_rel_def)
  ultimately show ?thesis using nf by (simp add: column_done_def)
qed

lemma column_done_pres:
  "column_done st0 c s \<Longrightarrow> pass_rel s s' \<Longrightarrow> column_done st0 c s'"
  using row_done_pres by (auto simp: column_done_def pass_rel_def)

lemma preprocess_rel: "preprocess names st = (res, st') \<Longrightarrow> pass_rel st st'"
  unfolding preprocess_def
  by (rule for_each_rel [where R = pass_rel])
    (auto intro: preprocess_column_rel pass_rel_refl pass_rel_trans)

lemma preprocess_err:
  assumes run: "preprocess names st = (Inl e, st')"
  shows "e \<noteq> ConfigurationError"
proof (rule for_each_err [OF _ run [unfolded preprocess_def]])
  show "\<And>x s e s'. preprocess_column x s = (Inl e, s') \<Longrightarrow> e \<noteq> ConfigurationError"
    by (rule preprocess_column_err)
qed

lemma preprocess_done:
  assumes run: "preprocess names st = (Inr (), st')"
  shows "\<forall>c\<in>set names. column_done st c st'"
proof (rule for_each_done [where R = pass_rel, OF _ _ _ _ _ run [unfolded preprocess_def]])
  show "\<And>x s r s'. preprocess_column x s = (r, s') \<Longrightarrow> pass_rel s s'"
    by (rule preprocess_column_rel)
  show "\<And>x s s'. pass_rel st s \<Longrightarrow> preprocess_column x s = (Inr (), s') \<Longrightarrow> column_done st x s'"
    by (rule preprocess_column_done)
  show "\<And>x s s'. column_done st x s \<Longrightarrow> pass_rel s s' \<Longrightarrow> column_done st x s'"
    by (rule column_done_pres)
  show "\<And>s. pass_rel s s" by (rule pass_rel_refl)
  show "\<And>a b d. pass_rel a b \<Longrightarrow> pass_rel b d \<Longrightarrow> pass_rel a d" by (rule pass_rel_trans)
qed

subsection \<open>Claims on the preprocessing pass\<close>

lemma isnan_quiet_NaN: "isnan quiet_NaN"
  by (simp add: isnan_def quiet_NaN_def)

text \<open>
  Claim C1. When the preprocessing pass over the requested columns ends without an
  exception, then in every row \<open>r\<close> of every requested column \<open>c\<close> other than
  \<open>WEIGHT_SPECTRUM\<close>, a cell whose flag is true holds the quiet-NaN sentinel in its real
  and in its imaginary part, and a cell whose flag is false holds the value \<open>x\<close> that it
  held before.
\<close>

theorem preprocess_flagged_cells:
  assumes run: "preprocess names st = (Inr (), st')"
    and c: "c \<in> set names" "c \<noteq> ''WEIGHT_SPECTRUM''"
    and r: "r < nrow (ms st)"
    and x: "cell_at (ms st) c r i = Some x"
  shows "cell_at (ms st') c r i =
           Some (if flag_at (ms st) r i then Cplx quiet_NaN quiet_NaN else x)"
proof -
  have p: "pass_rel st st'" using run by (rule preprocess_rel)
  have fl: "flag_at (ms st') = flag_at (ms st)"
    using p by (intro flag_at_cong) (simp add: pass_rel_def)
  have n: "nrow (ms st') = nrow (ms st)" using p by (simp add: pass_rel_def)
  have "column_done st c st'" using preprocess_done [OF run] c(1) by blast
  then have "row_done st c r st'" using c(2) r n by (simp add: column_done_def)
  then have d: "flag_at (ms st) r i \<and> cell_at (ms st') c r i \<noteq> None \<longrightarrow>
      cell_at (ms st') c r i = Some NaN_cell"
    by (simp add: row_done_def fl)
  have "cell_at (ms st') c r i = cell_at (ms st) c r i \<or>
        (flag_at (ms st) r i \<and> cell_at (ms st) c r i \<noteq> None \<and>
         cell_at (ms st') c r i = Some NaN_cell)"
    using p by (simp add: pass_rel_def)
  with d x show ?thesis by (auto simp: NaN_cell_def)
qed

theorem preprocess_flagged_cells_witness:
  "cell_at (ms (snd (preprocess [''WEIGHT_SPECTRUM'', ''DATA''] ex_state))) ''DATA'' 0 1 =
     Some (Cplx quiet_NaN quiet_NaN) \<and>
   cell_at (ms (snd (preprocess [''WEIGHT_SPECTRUM'', ''DATA''] ex_state))) ''DATA'' 0 0 =
     Some (Cplx 1 2)"
proof -
  have "fst (preprocess [''WEIGHT_SPECTRUM'', ''DATA''] ex_state) = Inr ()" by code_simp
  then have run: "preprocess [''WEIGHT_SPECTRUM'', ''DATA''] ex_state =
      (Inr (), snd (preprocess [''WEIGHT_SPECTRUM'', ''DATA''] ex_state))"
    by (simp add: prod_eq_iff)
  have c: "''DATA'' \<in> set [''WEIGHT_SPECTRUM'', ''DATA'']" "''DATA'' \<noteq> ''WEIGHT_SPECTRUM''"
    by simp_all
  have r: "0 < nrow (ms ex_state)" by code_simp
  have x1: "cell_at (ms ex_state) ''DATA'' 0 1 = Some (Cplx 3 4)" by code_simp
  have x0: "cell_at (ms ex_state) ''DATA'' 0 0 = Some (Cplx 1 2)" by code_simp
  have f1: "flag_at (ms ex_state) 0 1" by code_simp
  have f0: "\<not> flag_at (ms ex_state) 0 0" by code_simp
  show ?thesis
    using preprocess_flagged_cells [OF run c r x1] preprocess_flagged_cells [OF run c r x0] f1 f0
    by simp
qed

text \<open>
  The value of a cell after the pass, and the reads of a row, as lemmas for the
  statements on whole columns below.
\<close>

lemma preprocess_cell_value:
  assumes run: "preprocess names st = (Inr (), st')"
    and c: "c \<in> set names" "c \<noteq> ''WEIGHT_SPECTRUM''"
    and r: "r < nrow (ms st)"
    and x: "cell_at (ms st) c r i = Some x"
  shows "cell_at (ms st') c r i =
           Some (if flag_at (ms st) r i then Cplx quiet_NaN quiet_NaN else x)"
proof -
  have p: "pass_rel st st'" using run by (rule preprocess_rel)
  have fl: "flag_at (ms st') = flag_at (ms st)"
    using p by (intro flag_at_cong) (simp add: pass_rel_def)
  have n: "nrow (ms st') = nrow (ms st)" using p by (simp add: pass_rel_def)
  have "column_done st c st'" using preprocess_done [OF run] c(1) by blast
  then have "row_done st c r st'" using c(2) r n by (simp add: column_done_def)
  then have d: "flag_at (ms st) r i \<and> cell_at (ms st') c r i \<noteq> None \<longrightarrow>
      cell_at (ms st') c r i = Some NaN_cell"
    by (simp add: row_done_def fl)
  have "cell_at (ms st') c r i = cell_at (ms st) c r i \<or>
        (flag_at (ms st) r i \<and> cell_at (ms st) c r i \<noteq> None \<and>
         cell_at (ms st') c r i = Some NaN_cell)"
    using p by (simp add: pass_rel_def)
  with d x show ?thesis by (auto simp: NaN_cell_def)
qed

lemma preprocess_rows_read:
  assumes run: "preprocess names st = (Inr (), st')"
    and c: "c \<in> set names" "c \<noteq> ''WEIGHT_SPECTRUM''"
    and r: "r < nrow (ms st)"
  shows "\<exists>pre post. new_events st st' = pre @ EvGetData c r # EvGetFlag r # post"
proof -
  have n: "nrow (ms st') = nrow (ms st)"
    using preprocess_rel [OF run] by (simp add: pass_rel_def)
  have "column_done st c st'" using preprocess_done [OF run] c(1) by blast
  then have "row_done st c r st'" using c(2) r n by (simp add: column_done_def)
  then show ?thesis by (simp add: row_done_def)
qed

text \<open>
  Claim C8. The pass skips a column named \<open>WEIGHT_SPECTRUM\<close> entirely: on that name the
  column step returns at once with the state as it was, the contents of the column are
  the same after a pass over any list of requested columns, and the pass logs no read
  and no write of it. Every other requested column is processed: when the pass ends
  without an exception, then for each row \<open>r\<close> of such a column \<open>c\<close> the log of the pass
  holds the read of row \<open>r\<close> of \<open>c\<close> with the read of the flags of row \<open>r\<close> right after
  it, and each cell of the row holds the sentinel if its flag was true and the value it
  held before if not.
\<close>

theorem preprocess_skips_weight_column:
  assumes run: "preprocess names st = (res, st')"
  shows "preprocess_column ''WEIGHT_SPECTRUM'' st = (Inr (), st) \<and>
     columns (ms st') ''WEIGHT_SPECTRUM'' = columns (ms st) ''WEIGHT_SPECTRUM'' \<and>
     (\<forall>r arr. EvGetData ''WEIGHT_SPECTRUM'' r \<notin> set (new_events st st') \<and>
        EvPutData ''WEIGHT_SPECTRUM'' r arr \<notin> set (new_events st st')) \<and>
     (res = Inr () \<longrightarrow>
        (\<forall>c\<in>set names. c \<noteq> ''WEIGHT_SPECTRUM'' \<longrightarrow>
           (\<forall>r<nrow (ms st).
              (\<exists>pre post. new_events st st' = pre @ EvGetData c r # EvGetFlag r # post) \<and>
              (\<forall>i x. cell_at (ms st) c r i = Some x \<longrightarrow>
                 cell_at (ms st') c r i =
                   Some (if flag_at (ms st) r i then Cplx quiet_NaN quiet_NaN else x)))))"
proof -
  have p: "pass_rel st st'" using run by (rule preprocess_rel)
  then have "extends (pass_event (ms st)) st st'" by (simp add: pass_rel_def)
  then have pe: "\<forall>e\<in>set (new_events st st'). pass_event (ms st) e"
    using extends_new_events by blast
  have skip: "EvGetData ''WEIGHT_SPECTRUM'' r \<notin> set (new_events st st') \<and>
        EvPutData ''WEIGHT_SPECTRUM'' r arr \<notin> set (new_events st st')" for r arr
    using pe by fastforce
  have applied: "(\<exists>pre post. new_events st st' = pre @ EvGetData c r # EvGetFlag r # post) \<and>
      (\<forall>i x. cell_at (ms st) c r i = Some x \<longrightarrow>
         cell_at (ms st') c r i =
           Some (if flag_at (ms st) r i then Cplx quiet_NaN quiet_NaN else x))"
    if "res = Inr ()" "c \<in> set names" "c \<noteq> ''WEIGHT_SPECTRUM''" "r < nrow (ms st)" for c r
  proof -
    have ok: "preprocess names st = (Inr (), st')" using run that(1) by simp
    show ?thesis
      using preprocess_rows_read [OF ok that(2,3,4)] preprocess_cell_value [OF ok that(2,3,4)]
      by simp
  qed
  have "preprocess_column ''WEIGHT_SPECTRUM'' st = (Inr (), st)"
    by (simp add: preprocess_column_def return_io_def)
  moreover have "columns (ms st') ''WEIGHT_SPECTRUM'' = columns (ms st) ''WEIGHT_SPECTRUM''"
    using p by (simp add: pass_rel_def)
  ultimately show ?thesis using skip applied by (intro conjI allI impI ballI) simp_all
qed

theorem preprocess_skips_weight_column_witness:
  "preprocess_column ''WEIGHT_SPECTRUM'' ex_state = (Inr (), ex_state) \<and>
   columns (ms (snd (preprocess [''WEIGHT_SPECTRUM'', ''DATA''] ex_state))) ''WEIGHT_SPECTRUM'' =
     columns (ms ex_state) ''WEIGHT_SPECTRUM'' \<and>
   EvGetData ''WEIGHT_SPECTRUM'' 0
     \<notin> set (new_events ex_state (snd (preprocess [''WEIGHT_SPECTRUM'', ''DATA''] ex_state))) \<and>
   (\<exists>pre post. new_events ex_state (snd (preprocess [''WEIGHT_SPECTRUM'', ''DATA''] ex_state)) =
      pre @ EvGetData ''DATA'' 0 # EvGetFlag 0 # post) \<and>
   cell_at (ms (snd (preprocess [''WEIGHT_SPECTRUM'', ''DATA''] ex_state))) ''DATA'' 0 1 =
     Some (Cplx quiet_NaN quiet_NaN)"
proof -
  have "fst (preprocess [''WEIGHT_SPECTRUM'', ''DATA''] ex_state) = Inr ()" by code_simp
  then have run: "preprocess [''WEIGHT_SPECTRUM'', ''DATA''] ex_state =
      (Inr (), snd (preprocess [''WEIGHT_SPECTRUM'', ''DATA''] ex_state))"
    by (simp add: prod_eq_iff)
  have c: "''DATA'' \<in> set [''WEIGHT_SPECTRUM'', ''DATA'']" "''DATA'' \<noteq> ''WEIGHT_SPECTRUM''"
    by simp_all
  have r: "0 < nrow (ms ex_state)" by code_simp
  have x: "cell_at (ms ex_state) ''DATA'' 0 1 = Some (Cplx 3 4)" by code_simp
  have f: "flag_at (ms ex_state) 0 1" by code_simp
  note T = preprocess_skips_weight_column [OF run]
  from T have a: "preprocess_column ''WEIGHT_SPECTRUM'' ex_state = (Inr (), ex_state)"
    by (rule conjunct1)
  from T have b: "columns (ms (snd (preprocess [''WEIGHT_SPECTRUM'', ''DATA''] ex_state))) ''WEIGHT_SPECTRUM'' =
     columns (ms ex_state) ''WEIGHT_SPECTRUM''"
    by (elim conjE)
  from T have d: "\<forall>r arr. EvGetData ''WEIGHT_SPECTRUM'' r
       \<notin> set (new_events ex_state (snd (preprocess [''WEIGHT_SPECTRUM'', ''DATA''] ex_state))) \<and>
     EvPutData ''WEIGHT_SPECTRUM'' r arr
       \<notin> set (new_events ex_state (snd (preprocess [''WEIGHT_SPECTRUM'', ''DATA''] ex_state)))"
    by (elim conjE)
  note V = conjunct2 [OF conjunct2 [OF conjunct2 [OF T]], rule_format, OF refl c r]
  from V have v1: "\<exists>pre post. new_events ex_state (snd (preprocess [''WEIGHT_SPECTRUM'', ''DATA''] ex_state)) =
      pre @ EvGetData ''DATA'' 0 # EvGetFlag 0 # post"
    by (rule conjunct1)
  from conjunct2 [OF V, rule_format, OF x] f
  have v2: "cell_at (ms (snd (preprocess [''WEIGHT_SPECTRUM'', ''DATA''] ex_state))) ''DATA'' 0 1 =
     Some (Cplx quiet_NaN quiet_NaN)"
    by simp
  from d have d': "EvGetData ''WEIGHT_SPECTRUM'' 0
     \<notin> set (new_events ex_state (snd (preprocess [''WEIGHT_SPECTRUM'', ''DATA''] ex_state)))"
    by simp
  from a b d' v1 v2 show ?thesis by (intro conjI)
qed

text \<open>
  Claim C7 (amended). The pass writes a row back only when it has assigned the sentinel
  to at least one cell of it: each array put during the pass has an index at which the
  flag of that row is true and at which the array holds the sentinel in both parts. On a
  table in which no flag is set, the pass puts no row at all. Whether the assignment
  changed the cell plays no part: line 244 sets \<^verbatim>\<open>isChanged\<close> for every flagged cell, so a
  row whose flagged cells hold the sentinel already is put again, as the example after
  the theorem shows.
\<close>

theorem preprocess_puts_flagged_rows:
  assumes run: "preprocess names st = (res, st')"
  shows "events st' = events st @ new_events st st' \<and>
     (\<forall>c r arr. EvPutData c r arr \<in> set (new_events st st') \<longrightarrow>
        (\<exists>i<length arr. flag_at (ms st) r i \<and> arr ! i = Cplx quiet_NaN quiet_NaN)) \<and>
     ((\<forall>r i. \<not> flag_at (ms st) r i) \<longrightarrow>
        (\<forall>c r arr. EvPutData c r arr \<notin> set (new_events st st')))"
proof -
  have "extends (pass_event (ms st)) st st'"
    using preprocess_rel [OF run] by (simp add: pass_rel_def)
  then have ev: "events st' = events st @ new_events st st'"
    and pe: "\<forall>e\<in>set (new_events st st'). pass_event (ms st) e"
    using extends_new_events by blast+
  have put: "\<exists>i<length arr. flag_at (ms st) r i \<and> arr ! i = Cplx quiet_NaN quiet_NaN"
    if "EvPutData c r arr \<in> set (new_events st st')" for c r arr
    using pe that by (fastforce simp: NaN_cell_def)
  then show ?thesis using ev by blast
qed

theorem preprocess_puts_flagged_rows_witness:
  "EvPutData ''DATA'' 0 [Cplx 1 2, Cplx quiet_NaN quiet_NaN]
     \<in> set (new_events ex_state (snd (preprocess [''DATA''] ex_state))) \<and>
   (\<exists>i<length [Cplx 1 2, Cplx quiet_NaN quiet_NaN]. flag_at (ms ex_state) 0 i \<and>
      [Cplx 1 2, Cplx quiet_NaN quiet_NaN] ! i = Cplx quiet_NaN quiet_NaN) \<and>
   EvPutData ''DATA'' 0 [Cplx 1 2, Cplx 3 4]
     \<notin> set (new_events ex_state_unflagged (snd (preprocess [''DATA''] ex_state_unflagged)))"
proof -
  have run: "preprocess [''DATA''] ex_state =
      (fst (preprocess [''DATA''] ex_state), snd (preprocess [''DATA''] ex_state))"
    by simp
  have run': "preprocess [''DATA''] ex_state_unflagged =
      (fst (preprocess [''DATA''] ex_state_unflagged), snd (preprocess [''DATA''] ex_state_unflagged))"
    by simp
  have put: "EvPutData ''DATA'' 0 [Cplx 1 2, Cplx quiet_NaN quiet_NaN]
     \<in> set (new_events ex_state (snd (preprocess [''DATA''] ex_state)))"
    by code_simp
  have nf: "\<forall>r i. \<not> flag_at (ms ex_state_unflagged) r i"
    by (simp add: flag_at_def bool_rows_def ex_state_unflagged_def ex_ms_unflagged_def ex_ms_def
        ex_flag_def nth_Cons split: nat.splits)
  show ?thesis
    using preprocess_puts_flagged_rows [OF run] preprocess_puts_flagged_rows [OF run'] put nf
    by blast
qed

text \<open>
  On the example table whose flagged cell holds the sentinel before the pass, row 0 is
  put with the contents that it had, and it has the same contents afterwards: a row is
  written back although none of its cells has changed.
\<close>

theorem preprocess_puts_unchanged_row_counterexample:
  "row_at (ms ex_state_sentinel) ''DATA'' 0 = Some [Cplx 1 2, Cplx quiet_NaN quiet_NaN] \<and>
   EvPutData ''DATA'' 0 [Cplx 1 2, Cplx quiet_NaN quiet_NaN]
     \<in> set (new_events ex_state_sentinel (snd (preprocess [''DATA''] ex_state_sentinel))) \<and>
   row_at (ms (snd (preprocess [''DATA''] ex_state_sentinel))) ''DATA'' 0 =
     Some [Cplx 1 2, Cplx quiet_NaN quiet_NaN]"
proof (intro conjI)
  show "row_at (ms ex_state_sentinel) ''DATA'' 0 = Some [Cplx 1 2, Cplx quiet_NaN quiet_NaN]"
    by code_simp
  show "EvPutData ''DATA'' 0 [Cplx 1 2, Cplx quiet_NaN quiet_NaN]
     \<in> set (new_events ex_state_sentinel (snd (preprocess [''DATA''] ex_state_sentinel)))"
    by code_simp
  show "row_at (ms (snd (preprocess [''DATA''] ex_state_sentinel))) ''DATA'' 0 =
     Some [Cplx 1 2, Cplx quiet_NaN quiet_NaN]"
    by code_simp
qed

section \<open>The migration steps\<close>

lemma prepare_spec:
  assumes run: "PrepareReplacingColumn T c m b w shp st = (res, st')"
  shows "ms st' = ms st \<and> res \<noteq> Inl ConfigurationError \<and>
     (\<exists>r. events st' = events st @ [EvPrepareReplacingColumn T c r] \<and>
        (\<forall>replaced shp'. res = Inr (replaced, shp') \<longrightarrow> r = Some replaced))"
  using run
  by (auto simp: PrepareReplacingColumn_def Let_def prepare_result_def
      split: sum.splits option.splits if_splits)

lemma prepare_columns_spec:
  assumes run: "prepare_columns rq names shp rep st = (res, st')"
  shows "ms st' = ms st \<and> res \<noteq> Inl ConfigurationError \<and>
     (\<exists>evs. events st' = events st @ evs \<and> (\<forall>e\<in>set evs. is_prepare e) \<and>
        (\<forall>shp' rep'. res = Inr (shp', rep') \<longrightarrow> rep' \<longrightarrow>
           rep \<or> (\<exists>T c. EvPrepareReplacingColumn T c (Some True) \<in> set evs)))"
  using run
proof (induction names arbitrary: shp rep st)
  case Nil
  then show ?case by auto
next
  case (Cons c names)
  let ?P = "PrepareReplacingColumn (elem_type_of c) c ''DyscoStMan'' (bitsPerFloat rq)
             (bitsPerWeight rq) shp st"
  obtain r1 s1 where p: "?P = (r1, s1)" by (cases ?P)
  from prepare_spec [OF p] obtain r where
    ms1: "ms s1 = ms st" and ne: "r1 \<noteq> Inl ConfigurationError"
    and ev1: "events s1 = events st @ [EvPrepareReplacingColumn (elem_type_of c) c r]"
    and rr: "\<forall>replaced shp'. r1 = Inr (replaced, shp') \<longrightarrow> r = Some replaced"
    by blast
  show ?case
  proof (cases r1)
    case (Inl e)
    with Cons.prems p have "res = Inl e" "st' = s1" by simp_all
    then show ?thesis using ms1 ne ev1 Inl by simp
  next
    case (Inr q)
    obtain replaced shp' where q: "q = (replaced, shp')" by (cases q)
    with Cons.prems p Inr have
      rest: "prepare_columns rq names shp' (replaced \<or> rep) s1 = (res, st')"
      by simp
    from Cons.IH [OF rest] obtain evs where
      ms': "ms st' = ms s1" and ne': "res \<noteq> Inl ConfigurationError"
      and ev': "events st' = events s1 @ evs" and pe: "\<forall>e\<in>set evs. is_prepare e"
      and rp: "\<forall>shp'' rep'. res = Inr (shp'', rep') \<longrightarrow> rep' \<longrightarrow>
           (replaced \<or> rep) \<or> (\<exists>T c. EvPrepareReplacingColumn T c (Some True) \<in> set evs)"
      by blast
    have r: "r = Some replaced" using rr Inr q by simp
    let ?evs = "EvPrepareReplacingColumn (elem_type_of c) c r # evs"
    have e1: "events st' = events st @ ?evs" using ev1 ev' by simp
    have e2: "\<forall>e\<in>set ?evs. is_prepare e" using pe by simp
    have e3: "\<forall>shp'' rep'. res = Inr (shp'', rep') \<longrightarrow> rep' \<longrightarrow>
           rep \<or> (\<exists>T c. EvPrepareReplacingColumn T c (Some True) \<in> set ?evs)"
      using rp r by (cases replaced) auto
    have "\<exists>evs. events st' = events st @ evs \<and> (\<forall>e\<in>set evs. is_prepare e) \<and>
        (\<forall>shp' rep'. res = Inr (shp', rep') \<longrightarrow> rep' \<longrightarrow>
           rep \<or> (\<exists>T c. EvPrepareReplacingColumn T c (Some True) \<in> set evs))"
      using e1 e2 e3 by (intro exI [of _ ?evs] conjI)
    then show ?thesis using ms' ms1 ne' by simp
  qed
qed

lemma move_spec:
  assumes run: "MoveColumnData T c st = (res, st')"
  shows "events st' = events st @ [EvMoveColumnData T c] \<and>
     res \<noteq> Inl ConfigurationError \<and>
     nrow (ms st') = nrow (ms st) \<and>
     dataManagers (ms st') = dataManagers (ms st) \<and>
     (\<forall>c'. c' \<noteq> c \<longrightarrow> columns (ms st') c' = columns (ms st) c')"
  using run
  by (auto simp: MoveColumnData_def bind_io_def emit_def
      split: if_splits option.splits sum.splits elem_type.splits cells.splits)

lemma reorder_spec:
  assumes run: "Reorder p st = (res, st')"
  shows "events st' = events st @ [EvReorder p] \<and> res = Inr () \<and>
     nrow (ms st') = nrow (ms st) \<and>
     dataManagers (ms st') = dataManagers (ms st) \<and>
     columns (ms st') = columns (ms st)"
  using run by (auto simp: Reorder_def bind_io_def emit_def)

lemma dash_option: "a \<noteq> [] \<Longrightarrow> hd a = CHR ''-'' \<Longrightarrow> tl a = s \<Longrightarrow> a = CHR ''-'' # s"
  by (cases a) simp_all

lemma po_nodash:
  "\<not> (a \<noteq> [] \<and> hd a = CHR ''-'') \<Longrightarrow> parse_options atof (a # as) rq = Inr (rq, a # as)"
  by (subst parse_options.simps) (simp only: if_False)

lemma po_data_bit_rate:
  "parse_options atof (''-data-bit-rate'' # as) rq =
     (case as of [] \<Rightarrow> Inl NullArgument
      | v # rest \<Rightarrow> parse_options atof rest (rq\<lparr>bitsPerFloat := word_of_int (atoi v)\<rparr>))"
  by simp

lemma po_weight_bit_rate:
  "parse_options atof (''-weight-bit-rate'' # as) rq =
     (case as of [] \<Rightarrow> Inl NullArgument
      | v # rest \<Rightarrow> parse_options atof rest (rq\<lparr>bitsPerWeight := word_of_int (atoi v)\<rparr>))"
  by simp

lemma po_reorder:
  "parse_options atof (''-reorder'' # as) rq = parse_options atof as (rq\<lparr>reorder := True\<rparr>)"
  by simp

lemma po_gaussian:
  "parse_options atof (''-gaussian'' # as) rq =
     parse_options atof as (rq\<lparr>distribution := GaussianDistribution\<rparr>)"
  by simp

lemma po_uniform:
  "parse_options atof (''-uniform'' # as) rq =
     parse_options atof as (rq\<lparr>distribution := UniformDistribution\<rparr>)"
  by simp

lemma po_studentt:
  "parse_options atof (''-studentt'' # as) rq =
     parse_options atof as (rq\<lparr>distribution := StudentsTDistribution\<rparr>)"
  by simp

lemma po_truncgaus:
  "parse_options atof (''-truncgaus'' # as) rq =
     (case as of [] \<Rightarrow> Inl NullArgument
      | v # rest \<Rightarrow> parse_options atof rest
          (rq\<lparr>distribution := TruncatedGaussianDistribution, distributionTruncation := atof v\<rparr>))"
  by simp

lemma po_column:
  "parse_options atof (''-column'' # as) rq =
     (case as of [] \<Rightarrow> Inl NullArgument
      | v # rest \<Rightarrow> parse_options atof rest (rq\<lparr>columnNames := columnNames rq @ [v]\<rparr>))"
  by simp

lemma po_rfnormalization:
  "parse_options atof (''-rfnormalization'' # as) rq =
     parse_options atof as (rq\<lparr>normalization := RFNormalization\<rparr>)"
  by simp

lemma po_afnormalization:
  "parse_options atof (''-afnormalization'' # as) rq =
     parse_options atof as (rq\<lparr>normalization := AFNormalization\<rparr>)"
  by simp

lemma po_rownormalization:
  "parse_options atof (''-rownormalization'' # as) rq =
     parse_options atof as (rq\<lparr>normalization := RowNormalization\<rparr>)"
  by simp

lemma po_invalid:
  "a \<noteq> [] \<Longrightarrow> hd a = CHR ''-'' \<Longrightarrow>
   tl a \<noteq> ''data-bit-rate'' \<Longrightarrow> tl a \<noteq> ''weight-bit-rate'' \<Longrightarrow> tl a \<noteq> ''reorder'' \<Longrightarrow>
   tl a \<noteq> ''gaussian'' \<Longrightarrow> tl a \<noteq> ''uniform'' \<Longrightarrow> tl a \<noteq> ''studentt'' \<Longrightarrow>
   tl a \<noteq> ''truncgaus'' \<Longrightarrow> tl a \<noteq> ''column'' \<Longrightarrow> tl a \<noteq> ''rfnormalization'' \<Longrightarrow>
   tl a \<noteq> ''afnormalization'' \<Longrightarrow> tl a \<noteq> ''rownormalization'' \<Longrightarrow>
   parse_options atof (a # as) rq = Inl (InvalidParameter a)"
  by (simp add: Let_def)


lemma parse_options_inv:
  "parse_options atof as rq = res \<Longrightarrow>
     (case res of
        Inl e \<Rightarrow> e \<noteq> ConfigurationError
      | Inr (rq', rest) \<Rightarrow> reorder rq' \<longrightarrow> reorder rq \<or> ''-reorder'' \<in> set as)"
proof (induction as arbitrary: rq res rule: length_induct)
  case (1 xs)
  note IH = "1.IH" [rule_format]
  show ?case
  proof (cases xs)
    case Nil
    with "1.prems" show ?thesis by auto
  next
    case (Cons a as)
    have rec: "(case parse_options atof as rq' of
        Inl e \<Rightarrow> e \<noteq> ConfigurationError
      | Inr (rq'', rest) \<Rightarrow> reorder rq'' \<longrightarrow> reorder rq' \<or> ''-reorder'' \<in> set as)" for rq'
      using IH [of as rq' "parse_options atof as rq'"] Cons by simp
    have rec2: "(case parse_options atof rest rq' of
        Inl e \<Rightarrow> e \<noteq> ConfigurationError
      | Inr (rq'', rest') \<Rightarrow> reorder rq'' \<longrightarrow> reorder rq' \<or> ''-reorder'' \<in> set rest)"
      if "as = v # rest" for rq' v rest
      using IH [of rest rq' "parse_options atof rest rq'"] Cons that by simp
    consider (nodash) "\<not> (a \<noteq> [] \<and> hd a = CHR ''-'')"
      | (o1) "a = ''-data-bit-rate''" | (o2) "a = ''-weight-bit-rate''" | (o3) "a = ''-reorder''"
      | (o4) "a = ''-gaussian''" | (o5) "a = ''-uniform''" | (o6) "a = ''-studentt''"
      | (o7) "a = ''-truncgaus''" | (o8) "a = ''-column''" | (o9) "a = ''-rfnormalization''"
      | (o10) "a = ''-afnormalization''" | (o11) "a = ''-rownormalization''"
      | (bad) "a \<noteq> []" "hd a = CHR ''-''"
        "tl a \<noteq> ''data-bit-rate''" "tl a \<noteq> ''weight-bit-rate''" "tl a \<noteq> ''reorder''"
        "tl a \<noteq> ''gaussian''" "tl a \<noteq> ''uniform''" "tl a \<noteq> ''studentt''"
        "tl a \<noteq> ''truncgaus''" "tl a \<noteq> ''column''" "tl a \<noteq> ''rfnormalization''"
        "tl a \<noteq> ''afnormalization''" "tl a \<noteq> ''rownormalization''"
      using dash_option [of a] by metis
    then show ?thesis
    proof cases
      case nodash
      then have "res = Inr (rq, a # as)" using "1.prems" Cons po_nodash by simp
      then show ?thesis by simp
    next
      case o1
      show ?thesis
      proof (cases as)
        case Nil
        then have "res = Inl NullArgument" using "1.prems" Cons o1 po_data_bit_rate by simp
        then show ?thesis by simp
      next
        case c: (Cons v rest)
        then have "res = parse_options atof rest (rq\<lparr>bitsPerFloat := word_of_int (atoi v)\<rparr>)"
          using "1.prems" Cons o1 po_data_bit_rate by simp
        then show ?thesis
          using rec2 [OF c, of "rq\<lparr>bitsPerFloat := word_of_int (atoi v)\<rparr>"] Cons c
          by (auto split: sum.splits)
      qed
    next
      case o2
      show ?thesis
      proof (cases as)
        case Nil
        then have "res = Inl NullArgument" using "1.prems" Cons o2 po_weight_bit_rate by simp
        then show ?thesis by simp
      next
        case c: (Cons v rest)
        then have "res = parse_options atof rest (rq\<lparr>bitsPerWeight := word_of_int (atoi v)\<rparr>)"
          using "1.prems" Cons o2 po_weight_bit_rate by simp
        then show ?thesis
          using rec2 [OF c, of "rq\<lparr>bitsPerWeight := word_of_int (atoi v)\<rparr>"] Cons c
          by (auto split: sum.splits)
      qed
    next
      case o3
      then have "res = parse_options atof as (rq\<lparr>reorder := True\<rparr>)"
        using "1.prems" Cons po_reorder by simp
      then show ?thesis
        using rec [of "rq\<lparr>reorder := True\<rparr>"] Cons o3 by (auto split: sum.splits)
    next
      case o4
      then have "res = parse_options atof as (rq\<lparr>distribution := GaussianDistribution\<rparr>)"
        using "1.prems" Cons po_gaussian by simp
      then show ?thesis
        using rec [of "rq\<lparr>distribution := GaussianDistribution\<rparr>"] Cons
        by (auto split: sum.splits)
    next
      case o5
      then have "res = parse_options atof as (rq\<lparr>distribution := UniformDistribution\<rparr>)"
        using "1.prems" Cons po_uniform by simp
      then show ?thesis
        using rec [of "rq\<lparr>distribution := UniformDistribution\<rparr>"] Cons
        by (auto split: sum.splits)
    next
      case o6
      then have "res = parse_options atof as (rq\<lparr>distribution := StudentsTDistribution\<rparr>)"
        using "1.prems" Cons po_studentt by simp
      then show ?thesis
        using rec [of "rq\<lparr>distribution := StudentsTDistribution\<rparr>"] Cons
        by (auto split: sum.splits)
    next
      case o7
      show ?thesis
      proof (cases as)
        case Nil
        then have "res = Inl NullArgument" using "1.prems" Cons o7 po_truncgaus by simp
        then show ?thesis by simp
      next
        case c: (Cons v rest)
        then have "res = parse_options atof rest
            (rq\<lparr>distribution := TruncatedGaussianDistribution, distributionTruncation := atof v\<rparr>)"
          using "1.prems" Cons o7 po_truncgaus by simp
        then show ?thesis
          using rec2 [OF c, of "rq\<lparr>distribution := TruncatedGaussianDistribution,
              distributionTruncation := atof v\<rparr>"] Cons c
          by (auto split: sum.splits)
      qed
    next
      case o8
      show ?thesis
      proof (cases as)
        case Nil
        then have "res = Inl NullArgument" using "1.prems" Cons o8 po_column by simp
        then show ?thesis by simp
      next
        case c: (Cons v rest)
        then have "res = parse_options atof rest (rq\<lparr>columnNames := columnNames rq @ [v]\<rparr>)"
          using "1.prems" Cons o8 po_column by simp
        then show ?thesis
          using rec2 [OF c, of "rq\<lparr>columnNames := columnNames rq @ [v]\<rparr>"] Cons c
          by (auto split: sum.splits)
      qed
    next
      case o9
      then have "res = parse_options atof as (rq\<lparr>normalization := RFNormalization\<rparr>)"
        using "1.prems" Cons po_rfnormalization by simp
      then show ?thesis
        using rec [of "rq\<lparr>normalization := RFNormalization\<rparr>"] Cons
        by (auto split: sum.splits)
    next
      case o10
      then have "res = parse_options atof as (rq\<lparr>normalization := AFNormalization\<rparr>)"
        using "1.prems" Cons po_afnormalization by simp
      then show ?thesis
        using rec [of "rq\<lparr>normalization := AFNormalization\<rparr>"] Cons
        by (auto split: sum.splits)
    next
      case o11
      then have "res = parse_options atof as (rq\<lparr>normalization := RowNormalization\<rparr>)"
        using "1.prems" Cons po_rownormalization by simp
      then show ?thesis
        using rec [of "rq\<lparr>normalization := RowNormalization\<rparr>"] Cons
        by (auto split: sum.splits)
    next
      case bad
      then have "res = Inl (InvalidParameter a)"
        using "1.prems" Cons po_invalid [of a atof as rq] by simp
      then show ?thesis by simp
    qed
  qed
qed

lemma parse_args_err: "parse_args atof args = Inl e \<Longrightarrow> e \<noteq> ConfigurationError"
  using parse_options_inv [of atof args defaults "parse_options atof args defaults"]
  by (auto simp: parse_args_def Let_def split: sum.splits list.splits)


lemma new_events_eq: "events st' = events st @ evs \<Longrightarrow> new_events st st' = evs"
  by (simp add: new_events_def)

lemma new_events_append:
  assumes "events s1 = events st @ new_events st s1"
    and "events st' = events s1 @ new_events s1 st'"
  shows "new_events st st' = new_events st s1 @ new_events s1 st'"
    and "events st' = events st @ new_events st st'"
proof -
  have e: "events st' = events st @ (new_events st s1 @ new_events s1 st')"
    using assms by simp
  then show n: "new_events st st' = new_events st s1 @ new_events s1 st'"
    by (rule new_events_eq)
  show "events st' = events st @ new_events st st'"
    using e unfolding n .
qed

lemma create_spec':
  assumes run: "createDyscoStManColumn T c shp b w nm d nu tr st = (res, st')"
  shows "events st' = events st @ new_events st st' \<and>
     (\<forall>e\<in>set (new_events st st'). create_event nu e) \<and>
     nrow (ms st') = nrow (ms st) \<and>
     (\<forall>c'. c' \<noteq> c \<longrightarrow> columns (ms st') c' = columns (ms st) c') \<and>
     (dataManagers (ms st) ''DyscoStMan'' \<noteq> None \<longrightarrow>
        dataManagers (ms st') = dataManagers (ms st) \<and>
        new_events st st' = [EvFindDataManager ''DyscoStMan'' True, EvAddColumnExisting T c] \<and>
        res \<noteq> Inl ConfigurationError) \<and>
     (dataManagers (ms st) ''DyscoStMan'' = None \<longrightarrow>
        EvNewDyscoStMan b w \<in> set (new_events st st') \<and>
        (b = 0 \<or> w = 0 \<longrightarrow> res = Inl ConfigurationError)) \<and>
     (\<forall>b' w'. EvNewDyscoStMan b' w' \<in> set (new_events st st') \<longrightarrow>
        dataManagers (ms st) ''DyscoStMan'' = None) \<and>
     (res = Inr () \<longrightarrow> dataManagers (ms st') ''DyscoStMan'' \<noteq> None) \<and>
     (res = Inl ConfigurationError \<longrightarrow> ms st' = ms st)"
proof (cases "dataManagers (ms st) ''DyscoStMan''")
  case None
  then show ?thesis
    using run
    by (cases d)
      (auto simp: createDyscoStManColumn_def findDataManager_def bind_io_def Let_def
        new_DyscoStMan_def emit_def throw_io_def return_io_def addColumn_def
        define_column_def SetGaussianDistribution_def SetUniformDistribution_def
        SetStudentsTDistribution_def SetTruncatedGaussianDistribution_def
        SetNormalization_def new_events_def
        split: if_splits option.splits sum.splits)
next
  case (Some m)
  then show ?thesis
    using run
    by (auto simp: createDyscoStManColumn_def findDataManager_def bind_io_def Let_def
        emit_def addColumnExisting_def define_column_def new_events_def
        split: if_splits option.splits sum.splits)
qed

lemma creates_spec:
  assumes run: "for_each (\<lambda>c. createDyscoStManColumn (elem_type_of c) c shp b w nm d nu tr) cs st
      = (res, st')"
  shows "events st' = events st @ new_events st st' \<and>
     (\<forall>e\<in>set (new_events st st'). create_event nu e) \<and>
     nrow (ms st') = nrow (ms st) \<and>
     (\<forall>c'. c' \<notin> set cs \<longrightarrow> columns (ms st') c' = columns (ms st) c') \<and>
     (dataManagers (ms st) ''DyscoStMan'' \<noteq> None \<longrightarrow>
        dataManagers (ms st') ''DyscoStMan'' \<noteq> None \<and> res \<noteq> Inl ConfigurationError \<and>
        (\<forall>b' w'. EvNewDyscoStMan b' w' \<notin> set (new_events st st'))) \<and>
     (res = Inl ConfigurationError \<longrightarrow>
        ms st' = ms st \<and> EvNewDyscoStMan b w \<in> set (new_events st st')) \<and>
     (b = 0 \<or> w = 0 \<longrightarrow> (\<exists>b' w'. EvNewDyscoStMan b' w' \<in> set (new_events st st')) \<longrightarrow>
        res = Inl ConfigurationError)"
  using run
proof (induction cs arbitrary: st)
  case Nil
  then show ?case by (auto simp: new_events_def)
next
  case (Cons c cs)
  let ?body = "\<lambda>c. createDyscoStManColumn (elem_type_of c) c shp b w nm d nu tr"
  let ?D = "\<lambda>s. dataManagers (ms s) ''DyscoStMan''"
  obtain r1 s1 where b1: "?body c st = (r1, s1)" by (cases "?body c st")
  note C = create_spec' [OF b1]
  from C have e1: "events s1 = events st @ new_events st s1"
    and ce1: "\<forall>e\<in>set (new_events st s1). create_event nu e"
    and n1: "nrow (ms s1) = nrow (ms st)"
    and fr1: "\<forall>c'. c' \<noteq> c \<longrightarrow> columns (ms s1) c' = columns (ms st) c'"
    by simp_all
  from C have ex1: "?D st \<noteq> None \<Longrightarrow> ?D s1 \<noteq> None \<and> r1 \<noteq> Inl ConfigurationError"
    by simp
  from C have nw1: "?D st = None \<Longrightarrow> EvNewDyscoStMan b w \<in> set (new_events st s1)"
    and nz1: "?D st = None \<Longrightarrow> b = 0 \<or> w = 0 \<Longrightarrow> r1 = Inl ConfigurationError"
    and ok1: "r1 = Inr () \<Longrightarrow> ?D s1 \<noteq> None"
    and cf1: "r1 = Inl ConfigurationError \<Longrightarrow> ms s1 = ms st"
    by auto
  have new1: "?D st = None" if "EvNewDyscoStMan b' w' \<in> set (new_events st s1)" for b' w'
    using C that by auto
  show ?case
  proof (cases r1)
    case (Inl e)
    with Cons.prems b1 have res: "res = r1" and st': "st' = s1" by simp_all
    have f: "\<forall>c'. c' \<notin> set (c # cs) \<longrightarrow> columns (ms s1) c' = columns (ms st) c'"
      using fr1 by simp
    have x: "?D st \<noteq> None \<longrightarrow> ?D s1 \<noteq> None \<and> r1 \<noteq> Inl ConfigurationError \<and>
        (\<forall>b' w'. EvNewDyscoStMan b' w' \<notin> set (new_events st s1))"
      using ex1 new1 by auto
    have a: "r1 = Inl ConfigurationError \<longrightarrow>
        ms s1 = ms st \<and> EvNewDyscoStMan b w \<in> set (new_events st s1)"
      using cf1 ex1 nw1 by (cases "?D st") auto
    have z: "b = 0 \<or> w = 0 \<longrightarrow> (\<exists>b' w'. EvNewDyscoStMan b' w' \<in> set (new_events st s1)) \<longrightarrow>
        r1 = Inl ConfigurationError"
      using new1 nz1 by auto
    show ?thesis
      unfolding res st' using e1 ce1 n1 f x a z by (intro conjI)
  next
    case (Inr u)
    with Cons.prems b1 have rest: "for_each ?body cs s1 = (res, st')" by simp
    have dm1: "?D s1 \<noteq> None" using ok1 Inr by simp
    note I = Cons.IH [OF rest]
    from I have e2: "events st' = events s1 @ new_events s1 st'"
      and ce2: "\<forall>e\<in>set (new_events s1 st'). create_event nu e"
      and n2: "nrow (ms st') = nrow (ms s1)"
      and fr2: "\<forall>c'. c' \<notin> set cs \<longrightarrow> columns (ms st') c' = columns (ms s1) c'"
      by simp_all
    from I dm1 have dm2: "?D st' \<noteq> None"
      and ne2: "res \<noteq> Inl ConfigurationError"
      and nn2: "\<And>b' w'. EvNewDyscoStMan b' w' \<notin> set (new_events s1 st')"
      by auto
    note A = new_events_append [OF e1 e2]
    have r1ok: "r1 \<noteq> Inl ConfigurationError" using Inr by simp
    have z: "b = 0 \<or> w = 0 \<longrightarrow> (\<exists>b' w'. EvNewDyscoStMan b' w' \<in> set (new_events st st')) \<longrightarrow>
        res = Inl ConfigurationError"
      unfolding A(1) using new1 nz1 nn2 r1ok by auto
    have x: "?D st \<noteq> None \<longrightarrow> ?D st' \<noteq> None \<and> res \<noteq> Inl ConfigurationError \<and>
        (\<forall>b' w'. EvNewDyscoStMan b' w' \<notin> set (new_events st st'))"
      unfolding A(1) using new1 nn2 dm2 ne2 by auto
    have a: "res = Inl ConfigurationError \<longrightarrow>
        ms st' = ms st \<and> EvNewDyscoStMan b w \<in> set (new_events st st')"
      using ne2 by simp
    have f: "\<forall>c'. c' \<notin> set (c # cs) \<longrightarrow> columns (ms st') c' = columns (ms st) c'"
      using fr1 fr2 by simp
    have cev: "\<forall>e\<in>set (new_events st st'). create_event nu e"
      unfolding A(1) using ce1 ce2 by auto
    have n: "nrow (ms st') = nrow (ms st)" using n1 n2 by simp
    show ?thesis
      using A(2) cev n f x a z by (intro conjI)
  qed
qed

lemma moves_spec:
  assumes run: "for_each (\<lambda>c. MoveColumnData (elem_type_of c) c) cs st = (res, st')"
  shows "\<exists>evs. events st' = events st @ evs \<and> (\<forall>e\<in>set evs. move_event rq p e) \<and>
     (\<forall>b' w'. EvNewDyscoStMan b' w' \<notin> set evs) \<and>
     res \<noteq> Inl ConfigurationError \<and> nrow (ms st') = nrow (ms st) \<and>
     (\<forall>c'. c' \<notin> set cs \<longrightarrow> columns (ms st') c' = columns (ms st) c')"
  using run
proof (induction cs arbitrary: st)
  case Nil
  then show ?case by auto
next
  case (Cons c cs)
  let ?body = "\<lambda>c. MoveColumnData (elem_type_of c) c"
  obtain r1 s1 where b1: "?body c st = (r1, s1)" by (cases "?body c st")
  note M = move_spec [OF b1]
  show ?case
  proof (cases r1)
    case (Inl e)
    with Cons.prems b1 have "res = Inl e" "st' = s1" by simp_all
    then show ?thesis
      using M Inl by (intro exI [of _ "[EvMoveColumnData (elem_type_of c) c]"]) simp
  next
    case (Inr u)
    with Cons.prems b1 have rest: "for_each ?body cs s1 = (res, st')" by simp
    from Cons.IH [OF rest] obtain evs2 where
      e2: "events st' = events s1 @ evs2" and me2: "\<forall>e\<in>set evs2. move_event rq p e"
      and nn2: "\<forall>b' w'. EvNewDyscoStMan b' w' \<notin> set evs2"
      and ne2: "res \<noteq> Inl ConfigurationError"
      and n2: "nrow (ms st') = nrow (ms s1)"
      and fr2: "\<forall>c'. c' \<notin> set cs \<longrightarrow> columns (ms st') c' = columns (ms s1) c'"
      by blast
    show ?thesis
      using M e2 me2 nn2 ne2 n2 fr2
      by (intro exI [of _ "EvMoveColumnData (elem_type_of c) c # evs2"]) simp
  qed
qed

lemma moves_spec':
  assumes run: "for_each (\<lambda>c. MoveColumnData (elem_type_of c) c) cs st = (res, st')"
  shows "events st' = events st @ new_events st st'"
    and "\<forall>e\<in>set (new_events st st'). move_event rq p e"
    and "\<forall>b' w'. EvNewDyscoStMan b' w' \<notin> set (new_events st st')"
    and "res \<noteq> Inl ConfigurationError"
    and "nrow (ms st') = nrow (ms st)"
    and "\<forall>c'. c' \<notin> set cs \<longrightarrow> columns (ms st') c' = columns (ms st) c'"
proof -
  from moves_spec [OF run, of rq p] obtain evs where
    e: "events st' = events st @ evs" and m: "\<forall>e\<in>set evs. move_event rq p e"
    and n: "\<forall>b' w'. EvNewDyscoStMan b' w' \<notin> set evs"
    and r: "res \<noteq> Inl ConfigurationError" and nr: "nrow (ms st') = nrow (ms st)"
    and f: "\<forall>c'. c' \<notin> set cs \<longrightarrow> columns (ms st') c' = columns (ms st) c'"
    by blast
  have ne: "new_events st st' = evs" using e by (rule new_events_eq)
  show "events st' = events st @ new_events st st'" using e ne by simp
  show "\<forall>e\<in>set (new_events st st'). move_event rq p e" using m ne by simp
  show "\<forall>b' w'. EvNewDyscoStMan b' w' \<notin> set (new_events st st')" using n ne by simp
  show "res \<noteq> Inl ConfigurationError" by (rule r)
  show "nrow (ms st') = nrow (ms st)" by (rule nr)
  show "\<forall>c'. c' \<notin> set cs \<longrightarrow> columns (ms st') c' = columns (ms st) c'" by (rule f)
qed

lemma reorder_spec':
  assumes run: "Reorder p st = (res, st')"
  shows "events st' = events st @ new_events st st'"
    and "new_events st st' = [EvReorder p]"
    and "res = Inr ()"
    and "nrow (ms st') = nrow (ms st)"
    and "columns (ms st') = columns (ms st)"
  using reorder_spec [OF run] by (simp_all add: new_events_def)

lemma new_events_self: "new_events st st = []"
  by (simp add: new_events_def)

lemma create_replace_event: "create_event 1 e \<Longrightarrow> replace_event rq p e"
  by (simp add: replace_event_def)

lemma move_replace_event: "move_event rq p e \<Longrightarrow> replace_event rq p e"
  by (simp add: replace_event_def)

lemma move_event_not_new: "move_event rq p e \<Longrightarrow> e \<noteq> EvNewDyscoStMan b w"
  by (cases e) simp_all

lemma replace_spec:
  assumes run: "replace_columns rq p shp st = (res, st')"
  shows "events st' = events st @ new_events st st' \<and>
     (\<forall>e\<in>set (new_events st st'). replace_event rq p e) \<and>
     nrow (ms st') = nrow (ms st) \<and>
     (\<forall>c'. c' \<notin> set (columnNames rq) \<longrightarrow> columns (ms st') c' = columns (ms st) c') \<and>
     (res = Inl ConfigurationError \<longrightarrow>
        ms st' = ms st \<and>
        EvNewDyscoStMan (bitsPerFloat rq) (bitsPerWeight rq) \<in> set (new_events st st')) \<and>
     (bitsPerFloat rq = 0 \<or> bitsPerWeight rq = 0 \<longrightarrow>
        (\<exists>b' w'. EvNewDyscoStMan b' w' \<in> set (new_events st st')) \<longrightarrow>
        res = Inl ConfigurationError)"
proof -
  let ?cr = "for_each (\<lambda>columnName.
             createDyscoStManColumn (elem_type_of columnName) columnName shp (bitsPerFloat rq)
               (bitsPerWeight rq) (normalization rq) (distribution rq) 1
               (distributionTruncation rq)) (columnNames rq)"
  let ?mv = "for_each (\<lambda>columnName. MoveColumnData (elem_type_of columnName) columnName)
          (columnNames rq)"
  let ?b = "bitsPerFloat rq" and ?w = "bitsPerWeight rq"
  obtain r1 s1 where c1: "?cr st = (r1, s1)" by (cases "?cr st")
  note C = creates_spec [OF c1]
  from C have e1: "events s1 = events st @ new_events st s1"
    and ce1: "\<forall>e\<in>set (new_events st s1). create_event 1 e"
    and n1: "nrow (ms s1) = nrow (ms st)"
    and f1: "\<forall>c'. c' \<notin> set (columnNames rq) \<longrightarrow> columns (ms s1) c' = columns (ms st) c'"
    and a1: "r1 = Inl ConfigurationError \<longrightarrow>
        ms s1 = ms st \<and> EvNewDyscoStMan ?b ?w \<in> set (new_events st s1)"
    and z1: "?b = 0 \<or> ?w = 0 \<longrightarrow> (\<exists>b' w'. EvNewDyscoStMan b' w' \<in> set (new_events st s1)) \<longrightarrow>
        r1 = Inl ConfigurationError"
    by simp_all
  have re1: "\<forall>e\<in>set (new_events st s1). replace_event rq p e"
    using ce1 create_replace_event by blast
  show ?thesis
  proof (cases r1)
    case (Inl e)
    with run c1 have res: "res = r1" and st': "st' = s1"
      by (simp_all add: replace_columns_def bind_io_def)
    show ?thesis unfolding res st' using e1 re1 n1 f1 a1 z1 by (intro conjI)
  next
    case (Inr u)
    obtain r2 s2 where m2: "?mv s1 = (r2, s2)" by (cases "?mv s1")
    note M = moves_spec' [OF m2]
    have re2: "\<forall>e\<in>set (new_events s1 s2). replace_event rq p e"
      using M(2) move_replace_event by blast
    note A = new_events_append [OF e1 M(1)]
    have nonew1: "EvNewDyscoStMan b' w' \<notin> set (new_events st s1)" if "?b = 0 \<or> ?w = 0" for b' w'
      using z1 that Inr by auto
    from run c1 Inr m2 have run3:
      "(case r2 of Inl e \<Rightarrow> (Inl e, s2)
        | Inr x \<Rightarrow> (if reorder rq then Reorder p else return_io ()) s2) = (res, st')"
      by (simp add: replace_columns_def bind_io_def)
    consider (mfail) "res = r2" "st' = s2" "r2 \<noteq> Inr ()"
      | (noreorder) "res = Inr ()" "st' = s2"
      | (reorder) "reorder rq" "Reorder p s2 = (res, st')"
      using run3 by (cases r2) (auto simp: return_io_def split: if_splits)
    then show ?thesis
    proof cases
      case mfail
      have "res \<noteq> Inl ConfigurationError" using M(4) mfail by simp
      moreover have "\<forall>b' w'. EvNewDyscoStMan b' w' \<in> set (new_events st s2) \<longrightarrow>
          \<not> (?b = 0 \<or> ?w = 0)"
        unfolding A(1) using nonew1 M(3) by auto
      moreover have "\<forall>e\<in>set (new_events st s2). replace_event rq p e"
        unfolding A(1) using re1 re2 by auto
      ultimately show ?thesis
        unfolding mfail(2) using A(2) n1 M(5) f1 M(6) by auto
    next
      case noreorder
      have "\<forall>b' w'. EvNewDyscoStMan b' w' \<in> set (new_events st s2) \<longrightarrow>
          \<not> (?b = 0 \<or> ?w = 0)"
        unfolding A(1) using nonew1 M(3) by auto
      moreover have "\<forall>e\<in>set (new_events st s2). replace_event rq p e"
        unfolding A(1) using re1 re2 by auto
      ultimately show ?thesis
        unfolding noreorder using A(2) n1 M(5) f1 M(6) by auto
    next
      case reorder
      note R = reorder_spec' [OF reorder(2)]
      note B = new_events_append [OF A(2) R(1)]
      have "replace_event rq p (EvReorder p)"
        using reorder(1) by (simp add: replace_event_def)
      then have "\<forall>e\<in>set (new_events st st'). replace_event rq p e"
        unfolding B(1) A(1) R(2) using re1 re2 by auto
      moreover have "\<forall>b' w'. EvNewDyscoStMan b' w' \<in> set (new_events st st') \<longrightarrow>
          \<not> (?b = 0 \<or> ?w = 0)"
        unfolding B(1) A(1) R(2) using nonew1 M(3) by auto
      moreover have "\<forall>c'. c' \<notin> set (columnNames rq) \<longrightarrow> columns (ms st') c' = columns (ms st) c'"
        using f1 M(6) R(5) by simp
      moreover have "nrow (ms st') = nrow (ms st)" using n1 M(5) R(4) by simp
      ultimately show ?thesis
        using B(2) R(3) by auto
    qed
  qed
qed

lemma prepare_not_new: "is_prepare e \<Longrightarrow> e \<noteq> EvNewDyscoStMan b w"
  by (cases e) simp_all

lemma migrate_spec:
  assumes run: "migrate rq p st = (res, st')"
    and pre: "preprocess (columnNames rq) st = (pres, s1)"
  shows "events st' = events s1 @ new_events s1 st'"
    and "\<forall>e\<in>set (new_events s1 st'). is_prepare e \<or> replace_event rq p e"
    and "pres \<noteq> Inr () \<longrightarrow> res = pres \<and> st' = s1"
    and "nrow (ms st') = nrow (ms s1)"
    and "\<forall>c'. c' \<notin> set (columnNames rq) \<longrightarrow> columns (ms st') c' = columns (ms s1) c'"
    and "res = Inl ConfigurationError \<longrightarrow>
           pres = Inr () \<and> ms st' = ms s1 \<and>
           EvNewDyscoStMan (bitsPerFloat rq) (bitsPerWeight rq) \<in> set (new_events s1 st')"
    and "bitsPerFloat rq = 0 \<or> bitsPerWeight rq = 0 \<longrightarrow>
           (\<exists>b' w'. EvNewDyscoStMan b' w' \<in> set (new_events s1 st')) \<longrightarrow>
           res = Inl ConfigurationError"
    and "(\<exists>T c. EvPrepareReplacingColumn T c (Some True) \<in> set (new_events s1 st')) \<or>
           (ms st' = ms s1 \<and> (\<forall>e\<in>set (new_events s1 st'). is_prepare e))"
proof -
  let ?b = "bitsPerFloat rq" and ?w = "bitsPerWeight rq"
  let ?goal = "events st' = events s1 @ new_events s1 st' \<and>
    (\<forall>e\<in>set (new_events s1 st'). is_prepare e \<or> replace_event rq p e) \<and>
    (pres \<noteq> Inr () \<longrightarrow> res = pres \<and> st' = s1) \<and>
    nrow (ms st') = nrow (ms s1) \<and>
    (\<forall>c'. c' \<notin> set (columnNames rq) \<longrightarrow> columns (ms st') c' = columns (ms s1) c') \<and>
    (res = Inl ConfigurationError \<longrightarrow>
           pres = Inr () \<and> ms st' = ms s1 \<and> EvNewDyscoStMan ?b ?w \<in> set (new_events s1 st')) \<and>
    (?b = 0 \<or> ?w = 0 \<longrightarrow>
           (\<exists>b' w'. EvNewDyscoStMan b' w' \<in> set (new_events s1 st')) \<longrightarrow>
           res = Inl ConfigurationError) \<and>
    ((\<exists>T c. EvPrepareReplacingColumn T c (Some True) \<in> set (new_events s1 st')) \<or>
           (ms st' = ms s1 \<and> (\<forall>e\<in>set (new_events s1 st'). is_prepare e)))"
  have ?goal
  proof (cases pres)
    case (Inl e)
    with run pre have "res = pres" "st' = s1" by (simp_all add: migrate_def bind_io_def)
    moreover have "pres \<noteq> Inl ConfigurationError" using pre Inl preprocess_err by blast
    ultimately show ?thesis by (simp add: new_events_self)
  next
    case (Inr u)
    let ?pc = "prepare_columns rq (columnNames rq) [] False"
    obtain r2 s2 where p2: "?pc s1 = (r2, s2)" by (cases "?pc s1")
    from prepare_columns_spec [OF p2] obtain evs where
      ms2: "ms s2 = ms s1" and ne2: "r2 \<noteq> Inl ConfigurationError"
      and e2': "events s2 = events s1 @ evs" and pe': "\<forall>e\<in>set evs. is_prepare e"
      and rp': "\<forall>shp' rep'. r2 = Inr (shp', rep') \<longrightarrow> rep' \<longrightarrow>
           False \<or> (\<exists>T c. EvPrepareReplacingColumn T c (Some True) \<in> set evs)"
      by blast
    have nev: "new_events s1 s2 = evs" using e2' by (rule new_events_eq)
    have e2: "events s2 = events s1 @ new_events s1 s2" using e2' nev by simp
    have pe: "\<forall>e\<in>set (new_events s1 s2). is_prepare e" using pe' nev by simp
    have nn2: "EvNewDyscoStMan b' w' \<notin> set (new_events s1 s2)" for b' w'
      using pe prepare_not_new by blast
    from run pre Inr have run2:
      "bind_io (prepare_columns rq (columnNames rq) [] False)
         (\<lambda>(shp, isDataReplaced).
            if isDataReplaced then replace_columns rq p shp else return_io ()) s1 = (res, st')"
      by (simp add: migrate_def bind_io_def [of "preprocess (columnNames rq)"])
    consider (stop) "st' = s2" "res \<noteq> Inl ConfigurationError"
      | (replace) shp where "r2 = Inr (shp, True)" "replace_columns rq p shp s2 = (res, st')"
    proof (cases r2)
      case (Inl e)
      with run2 p2 have "res = Inl e" "st' = s2" by (simp_all add: bind_io_def)
      with Inl ne2 that(1) show ?thesis by simp
    next
      case r: (Inr q)
      obtain shp rep where q: "q = (shp, rep)" by (cases q)
      from run2 p2 r q have run3:
        "(if rep then replace_columns rq p shp else return_io ()) s2 = (res, st')"
        by (simp add: bind_io_def)
      show ?thesis
      proof (cases rep)
        case True
        with run3 r q that(2) show ?thesis by simp
      next
        case False
        with run3 have "res = Inr ()" "st' = s2" by (simp_all add: return_io_def)
        with that(1) show ?thesis by simp
      qed
    qed
    then show ?thesis
    proof cases
      case stop
      have g1: "events s2 = events s1 @ new_events s1 s2" by (rule e2)
      have g2: "\<forall>e\<in>set (new_events s1 s2). is_prepare e \<or> replace_event rq p e"
        using pe by simp
      have g3: "pres \<noteq> Inr () \<longrightarrow> res = pres \<and> s2 = s1" using Inr by simp
      have g4: "nrow (ms s2) = nrow (ms s1)" using ms2 by simp
      have g5: "\<forall>c'. c' \<notin> set (columnNames rq) \<longrightarrow> columns (ms s2) c' = columns (ms s1) c'"
        using ms2 by simp
      have g6: "res = Inl ConfigurationError \<longrightarrow>
           pres = Inr () \<and> ms s2 = ms s1 \<and> EvNewDyscoStMan ?b ?w \<in> set (new_events s1 s2)"
        using stop(2) by simp
      have g7: "?b = 0 \<or> ?w = 0 \<longrightarrow>
           (\<exists>b' w'. EvNewDyscoStMan b' w' \<in> set (new_events s1 s2)) \<longrightarrow>
           res = Inl ConfigurationError"
        using nn2 by simp
      have g8: "(\<exists>T c. EvPrepareReplacingColumn T c (Some True) \<in> set (new_events s1 s2)) \<or>
           (ms s2 = ms s1 \<and> (\<forall>e\<in>set (new_events s1 s2). is_prepare e))"
        using ms2 pe by simp
      show ?thesis
        unfolding stop(1) using g1 g2 g3 g4 g5 g6 g7 g8 by (intro conjI)
    next
      case replace
      note R = replace_spec [OF replace(2)]
      from R have e3: "events st' = events s2 @ new_events s2 st'"
        and re3: "\<forall>e\<in>set (new_events s2 st'). replace_event rq p e"
        and n3: "nrow (ms st') = nrow (ms s2)"
        and f3: "\<forall>c'. c' \<notin> set (columnNames rq) \<longrightarrow> columns (ms st') c' = columns (ms s2) c'"
        and a3: "res = Inl ConfigurationError \<longrightarrow>
          ms st' = ms s2 \<and> EvNewDyscoStMan ?b ?w \<in> set (new_events s2 st')"
        and z3: "?b = 0 \<or> ?w = 0 \<longrightarrow>
          (\<exists>b' w'. EvNewDyscoStMan b' w' \<in> set (new_events s2 st')) \<longrightarrow>
          res = Inl ConfigurationError"
        by simp_all
      note A = new_events_append [OF e2 e3]
      have t: "\<exists>T c. EvPrepareReplacingColumn T c (Some True) \<in> set (new_events s1 st')"
        unfolding A(1) using rp' replace(1) nev by auto
      have ev: "\<forall>e\<in>set (new_events s1 st'). is_prepare e \<or> replace_event rq p e"
        unfolding A(1) using pe re3 by auto
      have z: "?b = 0 \<or> ?w = 0 \<longrightarrow>
          (\<exists>b' w'. EvNewDyscoStMan b' w' \<in> set (new_events s1 st')) \<longrightarrow>
          res = Inl ConfigurationError"
        unfolding A(1) using z3 nn2 by auto
      have a: "res = Inl ConfigurationError \<longrightarrow>
          pres = Inr () \<and> ms st' = ms s1 \<and> EvNewDyscoStMan ?b ?w \<in> set (new_events s1 st')"
        unfolding A(1) using a3 ms2 Inr by auto
      have g3: "pres \<noteq> Inr () \<longrightarrow> res = pres \<and> st' = s1" using Inr by simp
      have g4: "nrow (ms st') = nrow (ms s1)" using n3 ms2 by simp
      have g5: "\<forall>c'. c' \<notin> set (columnNames rq) \<longrightarrow> columns (ms st') c' = columns (ms s1) c'"
        using f3 ms2 by simp
      have g8: "(\<exists>T c. EvPrepareReplacingColumn T c (Some True) \<in> set (new_events s1 st')) \<or>
           (ms st' = ms s1 \<and> (\<forall>e\<in>set (new_events s1 st'). is_prepare e))"
        using t by (rule disjI1)
      show ?thesis
        using A(2) ev g3 g4 g5 a z g8 by (intro conjI)
    qed
  qed
  then have G: ?goal .
  from G show "events st' = events s1 @ new_events s1 st'" by (elim conjE)
  from G show "\<forall>e\<in>set (new_events s1 st'). is_prepare e \<or> replace_event rq p e"
    by (elim conjE)
  from G show "pres \<noteq> Inr () \<longrightarrow> res = pres \<and> st' = s1" by (elim conjE)
  from G show "nrow (ms st') = nrow (ms s1)" by (elim conjE)
  from G show "\<forall>c'. c' \<notin> set (columnNames rq) \<longrightarrow> columns (ms st') c' = columns (ms s1) c'"
    by (elim conjE)
  from G show "res = Inl ConfigurationError \<longrightarrow>
           pres = Inr () \<and> ms st' = ms s1 \<and>
           EvNewDyscoStMan (bitsPerFloat rq) (bitsPerWeight rq) \<in> set (new_events s1 st')"
    by (elim conjE)
  from G show "bitsPerFloat rq = 0 \<or> bitsPerWeight rq = 0 \<longrightarrow>
           (\<exists>b' w'. EvNewDyscoStMan b' w' \<in> set (new_events s1 st')) \<longrightarrow>
           res = Inl ConfigurationError"
    by (elim conjE)
  from G show "(\<exists>T c. EvPrepareReplacingColumn T c (Some True) \<in> set (new_events s1 st')) \<or>
           (ms st' = ms s1 \<and> (\<forall>e\<in>set (new_events s1 st'). is_prepare e))"
    by (elim conjE)
qed

lemma parse_args_Nil: "parse_args atof [] = Inl NullArgument"
  by (simp add: parse_args_def)

lemma main_spec:
  assumes run: "main atof args fs = (res, fs', lg)"
  shows "(lg = [] \<and> fs' = fs \<and> res \<noteq> Inl ConfigurationError \<and>
            (\<forall>rq p. parse_args atof args \<noteq> Inr (rq, p))) \<or>
         (\<exists>rq p. parse_args atof args = Inr (rq, p) \<and> fs p = None \<and> lg = [EvOpenMS p] \<and>
            fs' = fs \<and> res = Inl (TableOpenError p)) \<or>
         (\<exists>rq p t st'. parse_args atof args = Inr (rq, p) \<and> fs p = Some t \<and>
            migrate rq p \<lparr>ms = t, events = [EvOpenMS p]\<rparr> = (res, st') \<and>
            fs' = fs(p \<mapsto> ms st') \<and> lg = events st')"
proof (cases "args = []")
  case True
  with run show ?thesis by (auto simp: main_def parse_args_Nil)
next
  case False
  show ?thesis
  proof (cases "parse_args atof args")
    case (Inl e)
    then have "e \<noteq> ConfigurationError" by (rule parse_args_err)
    with run False Inl show ?thesis by (auto simp: main_def)
  next
    case (Inr q)
    obtain rq p where q: "q = (rq, p)" by (cases q)
    show ?thesis
    proof (cases "fs p")
      case None
      with run False Inr q show ?thesis by (auto simp: main_def)
    next
      case (Some t)
      obtain r st' where m: "migrate rq p \<lparr>ms = t, events = [EvOpenMS p]\<rparr> = (r, st')"
        by (cases "migrate rq p \<lparr>ms = t, events = [EvOpenMS p]\<rparr>")
      with run False Inr q Some show ?thesis by (auto simp: main_def)
    qed
  qed
qed

section \<open>The whole run\<close>



lemma main_cases:
  assumes m: "main atof args fs = (res, fs', lg)"
  obtains (quiet) "lg = []" "fs' = fs" "res \<noteq> Inl ConfigurationError"
      "\<forall>rq p. parse_args atof args \<noteq> Inr (rq, p)"
  | (noTable) rq p where "parse_args atof args = Inr (rq, p)" "fs p = None"
      "lg = [EvOpenMS p]" "fs' = fs" "res = Inl (TableOpenError p)"
  | (ran) rq p t pres s1 st' A B where
      "parse_args atof args = Inr (rq, p)" "fs p = Some t"
      "preprocess (columnNames rq) \<lparr>ms = t, events = [EvOpenMS p]\<rparr> = (pres, s1)"
      "migrate rq p \<lparr>ms = t, events = [EvOpenMS p]\<rparr> = (res, st')"
      "fs' = fs(p \<mapsto> ms st')"
      "events s1 = EvOpenMS p # A" "lg = EvOpenMS p # A @ B"
      "A = new_events \<lparr>ms = t, events = [EvOpenMS p]\<rparr> s1" "B = new_events s1 st'"
      "\<forall>e\<in>set A. pass_event t e"
      "\<forall>e\<in>set B. is_prepare e \<or> replace_event rq p e"
      "pass_rel \<lparr>ms = t, events = [EvOpenMS p]\<rparr> s1"
proof -
  from main_spec [OF m] consider
    (a) "lg = []" "fs' = fs" "res \<noteq> Inl ConfigurationError"
      "\<forall>rq p. parse_args atof args \<noteq> Inr (rq, p)"
  | (b) rq p where "parse_args atof args = Inr (rq, p)" "fs p = None"
      "lg = [EvOpenMS p]" "fs' = fs" "res = Inl (TableOpenError p)"
  | (c) rq p t st' where "parse_args atof args = Inr (rq, p)" "fs p = Some t"
      "migrate rq p \<lparr>ms = t, events = [EvOpenMS p]\<rparr> = (res, st')"
      "fs' = fs(p \<mapsto> ms st')" "lg = events st'"
    by blast
  then show ?thesis
  proof cases
    case a
    then show ?thesis by (rule quiet)
  next
    case b
    then show ?thesis by (rule noTable)
  next
    case c
    let ?st0 = "\<lparr>ms = t, events = [EvOpenMS p]\<rparr>"
    obtain pres s1 where pre: "preprocess (columnNames rq) ?st0 = (pres, s1)"
      by (cases "preprocess (columnNames rq) ?st0")
    have P: "pass_rel ?st0 s1" using pre by (rule preprocess_rel)
    then have "extends (pass_event (ms ?st0)) ?st0 s1" by (simp add: pass_rel_def)
    from extends_new_events [OF this]
    have e1: "events s1 = EvOpenMS p # new_events ?st0 s1"
      and pe: "\<forall>e\<in>set (new_events ?st0 s1). pass_event t e"
      by simp_all
    note M = migrate_spec [OF c(3) pre]
    have lg: "lg = EvOpenMS p # new_events ?st0 s1 @ new_events s1 st'"
      using c(5) M(1) e1 by simp
    show ?thesis
      by (rule ran [OF c(1) c(2) pre c(3) c(4) e1 lg refl refl pe M(2) P])
  qed
qed

lemma pass_event_not_replacement: "pass_event t e \<Longrightarrow> \<not> is_replacement e \<and> \<not> is_prepare e"
  by (cases e) simp_all

lemma prepare_not_replacement: "is_prepare e \<Longrightarrow> \<not> is_replacement e"
  by (cases e) simp_all


lemma create_existing:
  assumes "dataManagers (ms st) ''DyscoStMan'' = Some m"
  shows "createDyscoStManColumn T c shp b w nm d nu tr st =
     addColumnExisting T c shp (st\<lparr>events := events st @ [EvFindDataManager ''DyscoStMan'' True]\<rparr>)"
  using assms
  by (simp add: createDyscoStManColumn_def findDataManager_def bind_io_def Let_def)

lemma addColumnExisting_column:
  "addColumnExisting T c shp st = (Inr (), st') \<Longrightarrow>
     columns (ms st') c = Some (fresh_column T shp (nrow (ms st)))"
  by (auto simp: addColumnExisting_def bind_io_def emit_def define_column_def
      split: option.splits if_splits sum.splits)

subsection \<open>Claims on createDyscoStManColumn and on the whole run\<close>

text \<open>
  Claim C4. When the table has a storage manager under the name \<open>DyscoStMan\<close>, then
  \<^verbatim>\<open>createDyscoStManColumn\<close> leaves the managers of the table as they are, and what it
  logs is the query that finds the manager and then the definition of the column under
  the existing manager: no manager is constructed and no setter is called. When it
  succeeds, the column is bound afresh. The outcome is the same for any other bit
  widths, normalization, distribution and distribution parameters of the request.
\<close>

theorem attach_to_existing_manager:
  assumes ex: "dataManagers (ms st) ''DyscoStMan'' = Some m"
    and run: "createDyscoStManColumn T c shp b w nm d nu tr st = (res, st')"
  shows "dataManagers (ms st') = dataManagers (ms st) \<and>
     events st' = events st @ [EvFindDataManager ''DyscoStMan'' True, EvAddColumnExisting T c] \<and>
     (res = Inr () \<longrightarrow> columns (ms st') c = Some (fresh_column T shp (nrow (ms st)))) \<and>
     createDyscoStManColumn T c shp b' w' nm' d' nu' tr' st = (res, st')"
proof -
  note C = create_spec' [OF run]
  from C ex have dm: "dataManagers (ms st') = dataManagers (ms st)"
    and ne: "new_events st st' = [EvFindDataManager ''DyscoStMan'' True, EvAddColumnExisting T c]"
    and ev: "events st' = events st @ new_events st st'"
    by simp_all
  have add: "addColumnExisting T c shp
      (st\<lparr>events := events st @ [EvFindDataManager ''DyscoStMan'' True]\<rparr>) = (res, st')"
    using run create_existing [OF ex] by simp
  then have same: "createDyscoStManColumn T c shp b' w' nm' d' nu' tr' st = (res, st')"
    using create_existing [OF ex] by simp
  have col: "res = Inr () \<longrightarrow> columns (ms st') c = Some (fresh_column T shp (nrow (ms st)))"
    using add addColumnExisting_column [of T c shp _ st'] by auto
  show ?thesis using dm ev ne col same by simp
qed

theorem attach_to_existing_manager_witness:
  "dataManagers (ms (snd (createDyscoStManColumn ComplexT ''MODEL_DATA'' [2] 4 6 RFNormalization
       UniformDistribution 1 3 ex_state_migrated))) ''DyscoStMan'' = Some ex_stman \<and>
   events (snd (createDyscoStManColumn ComplexT ''MODEL_DATA'' [2] 4 6 RFNormalization
       UniformDistribution 1 3 ex_state_migrated)) =
     [EvFindDataManager ''DyscoStMan'' True, EvAddColumnExisting ComplexT ''MODEL_DATA'']"
proof -
  let ?r = "createDyscoStManColumn ComplexT ''MODEL_DATA'' [2] 4 6 RFNormalization
       UniformDistribution 1 3 ex_state_migrated"
  have ex: "dataManagers (ms ex_state_migrated) ''DyscoStMan'' = Some ex_stman"
    by (simp add: ex_state_migrated_def ex_ms_migrated_def)
  have run: "?r = (fst ?r, snd ?r)" by simp
  have e0: "events ex_state_migrated = []" by (simp add: ex_state_migrated_def)
  note T = attach_to_existing_manager [OF ex run]
  from T have "dataManagers (ms (snd ?r)) = dataManagers (ms ex_state_migrated)"
    by (rule conjunct1)
  then have a: "dataManagers (ms (snd ?r)) ''DyscoStMan'' = Some ex_stman" using ex by simp
  from T [THEN conjunct2, THEN conjunct1]
  have "events (snd ?r) = events ex_state_migrated @
      [EvFindDataManager ''DyscoStMan'' True, EvAddColumnExisting ComplexT ''MODEL_DATA'']" .
  then have b: "events (snd ?r) =
      [EvFindDataManager ''DyscoStMan'' True, EvAddColumnExisting ComplexT ''MODEL_DATA'']"
    using e0 by simp
  from a b show ?thesis by (rule conjI)
qed

text \<open>
  Claim C10. Every call of \<^verbatim>\<open>SetStudentsTDistribution\<close> in a run of \<^verbatim>\<open>main\<close> passes the
  degrees of freedom 1, whatever the arguments, the conversion of numbers and the
  tables are.
\<close>

theorem students_t_degrees_of_freedom:
  assumes run: "main atof args fs = (res, fs', lg)"
    and ev: "EvSetStudentsTDistribution nu \<in> set lg"
  shows "nu = 1"
  using run
proof (cases rule: main_cases)
  case quiet
  with ev show ?thesis by simp
next
  case (noTable rq p)
  with ev show ?thesis by simp
next
  case (ran rq p t pres s1 st' A B)
  from ev ran(7) have "EvSetStudentsTDistribution nu \<in> set A \<or>
      EvSetStudentsTDistribution nu \<in> set B"
    by auto
  then show ?thesis
  proof
    assume "EvSetStudentsTDistribution nu \<in> set A"
    with ran(10) have "pass_event t (EvSetStudentsTDistribution nu)" by blast
    then show ?thesis by simp
  next
    assume "EvSetStudentsTDistribution nu \<in> set B"
    with ran(11) have "is_prepare (EvSetStudentsTDistribution nu) \<or>
        replace_event rq p (EvSetStudentsTDistribution nu)"
      by blast
    then show ?thesis by (simp add: replace_event_def)
  qed
qed

theorem students_t_degrees_of_freedom_witness:
  "EvSetStudentsTDistribution 1
     \<in> set (snd (snd (main ex_atof [''-reorder'', ''-studentt'', ''t.ms''] ex_fs))) \<and>
   EvSetStudentsTDistribution 2
     \<notin> set (snd (snd (main ex_atof [''-reorder'', ''-studentt'', ''t.ms''] ex_fs)))"
proof -
  let ?m = "main ex_atof [''-reorder'', ''-studentt'', ''t.ms''] ex_fs"
  have run: "?m = (fst ?m, fst (snd ?m), snd (snd ?m))" by simp
  have a: "EvSetStudentsTDistribution 1 \<in> set (snd (snd ?m))" by code_simp
  have b: "EvSetStudentsTDistribution 2 \<notin> set (snd (snd ?m))"
  proof
    assume "EvSetStudentsTDistribution 2 \<in> set (snd (snd ?m))"
    from students_t_degrees_of_freedom [OF run this] show False by simp
  qed
  from a b show ?thesis by (rule conjI)
qed



text \<open>
  Claim C2. If every call of \<^verbatim>\<open>PrepareReplacingColumn\<close> in a run reports that its column
  is not replaced, the run logs no manager query, no manager construction, no setter,
  no column definition, no data move and no reorder, and the table that it leaves is the
  table as the preprocessing pass has left it.
\<close>

theorem no_replacement_no_migration:
  assumes run: "main atof args fs = (res, fs', lg)"
    and nf: "\<forall>T c r. EvPrepareReplacingColumn T c r \<in> set lg \<longrightarrow> r = Some False"
  shows "(\<forall>e\<in>set lg. \<not> is_replacement e) \<and>
     (\<forall>rq p t. parse_args atof args = Inr (rq, p) \<and> fs p = Some t \<longrightarrow>
        fs' = fs(p \<mapsto> ms (snd (preprocess (columnNames rq) \<lparr>ms = t, events = [EvOpenMS p]\<rparr>))))"
  using run
proof (cases rule: main_cases)
  case quiet
  then show ?thesis by simp
next
  case (noTable rq p)
  then show ?thesis by simp
next
  case (ran rq p t pres s1 st' A B)
  from migrate_spec(8) [OF ran(4) ran(3)] have
    "(\<exists>T c. EvPrepareReplacingColumn T c (Some True) \<in> set B) \<or>
     (ms st' = ms s1 \<and> (\<forall>e\<in>set B. is_prepare e))"
    unfolding ran(9) .
  then have keep: "ms st' = ms s1" and prep: "\<forall>e\<in>set B. is_prepare e"
  proof -
    assume d: "(\<exists>T c. EvPrepareReplacingColumn T c (Some True) \<in> set B) \<or>
     (ms st' = ms s1 \<and> (\<forall>e\<in>set B. is_prepare e))"
    have no: "\<not> (\<exists>T c. EvPrepareReplacingColumn T c (Some True) \<in> set B)"
    proof
      assume "\<exists>T c. EvPrepareReplacingColumn T c (Some True) \<in> set B"
      then obtain T c where "EvPrepareReplacingColumn T c (Some True) \<in> set lg"
        unfolding ran(7) by auto
      with nf have "Some True = Some False" by blast
      then show False by simp
    qed
    from d no show "ms st' = ms s1" by blast
    from d no show "\<forall>e\<in>set B. is_prepare e" by blast
  qed
  have ev: "\<forall>e\<in>set lg. \<not> is_replacement e"
    unfolding ran(7) using ran(10) prep pass_event_not_replacement prepare_not_replacement
    by auto
  have "fs' = fs(p \<mapsto> ms (snd (preprocess (columnNames rq) \<lparr>ms = t, events = [EvOpenMS p]\<rparr>)))"
    using ran(5) keep ran(3) by simp
  with ev ran(1,2) show ?thesis by auto
qed

theorem no_replacement_no_migration_witness:
  "EvPrepareReplacingColumn ComplexT ''DATA'' (Some False)
     \<in> set (snd (snd (main ex_atof [''m.ms''] ex_fs))) \<and>
   EvFindDataManager ''DyscoStMan'' True \<notin> set (snd (snd (main ex_atof [''m.ms''] ex_fs))) \<and>
   fst (snd (main ex_atof [''m.ms''] ex_fs)) =
     ex_fs(''m.ms'' \<mapsto>
       ms (snd (preprocess [''DATA''] \<lparr>ms = ex_ms_migrated, events = [EvOpenMS ''m.ms'']\<rparr>)))"
proof -
  let ?m = "main ex_atof [''m.ms''] ex_fs"
  have run: "?m = (fst ?m, fst (snd ?m), snd (snd ?m))" by simp
  have lg: "snd (snd ?m) =
     [EvOpenMS ''m.ms'', EvGetData ''DATA'' 0, EvGetFlag 0,
      EvPutData ''DATA'' 0 [Cplx 1 2, Cplx quiet_NaN quiet_NaN],
      EvGetData ''DATA'' 1, EvGetFlag 1,
      EvPrepareReplacingColumn ComplexT ''DATA'' (Some False)]"
    by code_simp
  have nf: "\<forall>T c r. EvPrepareReplacingColumn T c r \<in> set (snd (snd ?m)) \<longrightarrow> r = Some False"
    unfolding lg by simp
  have parse: "parse_args ex_atof [''m.ms''] = Inr (defaults\<lparr>columnNames := [''DATA'']\<rparr>, ''m.ms'')"
    by code_simp
  have tab: "ex_fs ''m.ms'' = Some ex_ms_migrated" by (simp add: ex_fs_def)
  note T = no_replacement_no_migration [OF run nf]
  have a: "EvPrepareReplacingColumn ComplexT ''DATA'' (Some False) \<in> set (snd (snd ?m))"
    unfolding lg by simp
  have b: "EvFindDataManager ''DyscoStMan'' True \<notin> set (snd (snd ?m))"
  proof
    assume "EvFindDataManager ''DyscoStMan'' True \<in> set (snd (snd ?m))"
    with conjunct1 [OF T] have "\<not> is_replacement (EvFindDataManager ''DyscoStMan'' True)"
      by (rule bspec)
    then show False by simp
  qed
  from conjunct2 [OF T, rule_format, of "defaults\<lparr>columnNames := [''DATA'']\<rparr>" "''m.ms''"
      ex_ms_migrated] parse tab
  have c: "fst (snd ?m) = ex_fs(''m.ms'' \<mapsto>
       ms (snd (preprocess [''DATA''] \<lparr>ms = ex_ms_migrated, events = [EvOpenMS ''m.ms'']\<rparr>)))"
    by simp
  from a b c show ?thesis by (intro conjI)
qed



text \<open>
  Claim C9. A run of \<^verbatim>\<open>main\<close> leaves the column \<open>FLAG\<close> of every table as it was, and
  puts no row to a column of that name.
\<close>

theorem flag_column_read_only:
  assumes run: "main atof args fs = (res, fs', lg)"
  shows "(\<forall>q. map_option (\<lambda>t. columns t ''FLAG'') (fs' q) =
            map_option (\<lambda>t. columns t ''FLAG'') (fs q)) \<and>
     (\<forall>r arr. EvPutData ''FLAG'' r arr \<notin> set lg)"
  using run
proof (cases rule: main_cases)
  case quiet
  then show ?thesis by simp
next
  case (noTable rq p)
  then show ?thesis by simp
next
  case (ran rq p t pres s1 st' A B)
  let ?st0 = "\<lparr>ms = t, events = [EvOpenMS p]\<rparr>"
  have f1: "columns (ms s1) ''FLAG'' = columns t ''FLAG''"
    using ran(12) by (simp add: pass_rel_def)
  have f2: "columns (ms st') ''FLAG'' = columns (ms s1) ''FLAG''"
  proof (cases "pres = Inr ()")
    case False
    with migrate_spec(3) [OF ran(4) ran(3)] show ?thesis by simp
  next
    case True
    with ran(3) have "preprocess (columnNames rq) ?st0 = (Inr (), s1)" by simp
    from preprocess_done [OF this] have cd: "\<forall>c\<in>set (columnNames rq). column_done ?st0 c s1" .
    have "''FLAG'' \<notin> set (columnNames rq)"
    proof
      assume "''FLAG'' \<in> set (columnNames rq)"
      with cd have "column_done ?st0 ''FLAG'' s1" by blast
      then show False by (simp add: column_done_def)
    qed
    with migrate_spec(5) [OF ran(4) ran(3)] show ?thesis by blast
  qed
  have tab: "\<forall>q. map_option (\<lambda>t. columns t ''FLAG'') (fs' q) =
            map_option (\<lambda>t. columns t ''FLAG'') (fs q)"
    using ran(2,5) f1 f2 by simp
  have np: "EvPutData ''FLAG'' r arr \<notin> set lg" for r arr
  proof
    assume "EvPutData ''FLAG'' r arr \<in> set lg"
    with ran(7) have "EvPutData ''FLAG'' r arr \<in> set A \<or> EvPutData ''FLAG'' r arr \<in> set B"
      by auto
    then show False
    proof
      assume "EvPutData ''FLAG'' r arr \<in> set A"
      with ran(10) have "pass_event t (EvPutData ''FLAG'' r arr)" by blast
      then show False by simp
    next
      assume "EvPutData ''FLAG'' r arr \<in> set B"
      with ran(11) have "is_prepare (EvPutData ''FLAG'' r arr) \<or>
          replace_event rq p (EvPutData ''FLAG'' r arr)"
        by blast
      then show False by (simp add: replace_event_def)
    qed
  qed
  show ?thesis using tab np by blast
qed

theorem flag_column_read_only_witness:
  "map_option (\<lambda>t. columns t ''FLAG'') (fst (snd (main ex_atof [''t.ms''] ex_fs)) ''t.ms'') =
     map_option (\<lambda>t. columns t ''FLAG'') (ex_fs ''t.ms'') \<and>
   EvPutData ''FLAG'' 0 [] \<notin> set (snd (snd (main ex_atof [''t.ms''] ex_fs)))"
proof -
  let ?m = "main ex_atof [''t.ms''] ex_fs"
  have run: "?m = (fst ?m, fst (snd ?m), snd (snd ?m))" by simp
  note T = flag_column_read_only [OF run]
  from conjunct1 [OF T, rule_format, of "''t.ms''"] conjunct2 [OF T, rule_format, of 0 "[]"]
  show ?thesis by (rule conjI)
qed

text \<open>
  Claim C3 (amended). For a request with a data or a weight bit width of 0, the run ends
  with a configuration error exactly when it constructs a storage manager. When it
  does, the table has been opened and the preprocessing pass has ended without an
  exception before: the log of the run starts with the opening of the table and the log
  of the pass, and the table that the run leaves is the one written by the pass.
  \<^verbatim>\<open>main\<close> itself does not look at the bit widths (lines 119 to 173 store them, line 222
  opens the table, line 280 passes them on).
\<close>

theorem zero_bit_width_error_after_preprocessing:
  assumes run: "main atof args fs = (res, fs', lg)"
    and parse: "parse_args atof args = Inr (rq, p)"
    and zero: "bitsPerFloat rq = 0 \<or> bitsPerWeight rq = 0"
  shows "(res = Inl ConfigurationError \<longleftrightarrow> (\<exists>b w. EvNewDyscoStMan b w \<in> set lg)) \<and>
     (res = Inl ConfigurationError \<longrightarrow>
        (\<exists>t st1 evs. fs p = Some t \<and>
           preprocess (columnNames rq) \<lparr>ms = t, events = [EvOpenMS p]\<rparr> = (Inr (), st1) \<and>
           fs' = fs(p \<mapsto> ms st1) \<and> lg = events st1 @ evs \<and> hd lg = EvOpenMS p))"
  using run
proof (cases rule: main_cases)
  case quiet
  with parse show ?thesis by simp
next
  case (noTable rq' p')
  then show ?thesis by simp
next
  case (ran rq' p' t pres s1 st' A B)
  from ran(1) parse have eq: "rq' = rq" "p' = p" by simp_all
  note M6 = migrate_spec(6) [OF ran(4) ran(3), unfolded eq]
  note M7 = migrate_spec(7) [OF ran(4) ran(3), unfolded eq]
  have inB: "EvNewDyscoStMan b w \<in> set B" if "EvNewDyscoStMan b w \<in> set lg" for b w
  proof -
    from that ran(7) have "EvNewDyscoStMan b w \<in> set A \<or> EvNewDyscoStMan b w \<in> set B"
      by auto
    then show ?thesis
    proof
      assume "EvNewDyscoStMan b w \<in> set A"
      with ran(10) have "pass_event t (EvNewDyscoStMan b w)" by blast
      then show ?thesis by simp
    qed
  qed
  have bwd: "res = Inl ConfigurationError" if "\<exists>b w. EvNewDyscoStMan b w \<in> set lg"
  proof -
    from that inB have "\<exists>b w. EvNewDyscoStMan b w \<in> set (new_events s1 st')"
      unfolding ran(9) by blast
    with M7 zero show ?thesis by blast
  qed
  have fwd: "\<exists>b w. EvNewDyscoStMan b w \<in> set lg" if "res = Inl ConfigurationError"
  proof -
    from M6 that have "EvNewDyscoStMan (bitsPerFloat rq) (bitsPerWeight rq) \<in> set B"
      unfolding ran(9) by simp
    then show ?thesis unfolding ran(7) by auto
  qed
  have state: "\<exists>t st1 evs. fs p = Some t \<and>
           preprocess (columnNames rq) \<lparr>ms = t, events = [EvOpenMS p]\<rparr> = (Inr (), st1) \<and>
           fs' = fs(p \<mapsto> ms st1) \<and> lg = events st1 @ evs \<and> hd lg = EvOpenMS p"
    if "res = Inl ConfigurationError"
  proof -
    from M6 that have pres: "pres = Inr ()" and keep: "ms st' = ms s1" by simp_all
    have a: "fs p = Some t" using ran(2) eq by simp
    have b: "preprocess (columnNames rq) \<lparr>ms = t, events = [EvOpenMS p]\<rparr> = (Inr (), s1)"
      using ran(3) pres eq by simp
    have c: "fs' = fs(p \<mapsto> ms s1)" using ran(5) keep eq by simp
    have d: "lg = events s1 @ B" using ran(6,7) by simp
    have e: "hd lg = EvOpenMS p" using ran(7) eq by simp
    from a b c d e show ?thesis by blast
  qed
  show ?thesis using bwd fwd state by blast
qed

theorem zero_bit_width_error_after_preprocessing_witness:
  "fst (main ex_atof [''-data-bit-rate'', ''0'', ''t.ms''] ex_fs) = Inl ConfigurationError \<and>
   (\<exists>b w. EvNewDyscoStMan b w
      \<in> set (snd (snd (main ex_atof [''-data-bit-rate'', ''0'', ''t.ms''] ex_fs)))) \<and>
   (\<exists>t st1 evs. ex_fs ''t.ms'' = Some t \<and>
      preprocess [''DATA''] \<lparr>ms = t, events = [EvOpenMS ''t.ms'']\<rparr> = (Inr (), st1) \<and>
      fst (snd (main ex_atof [''-data-bit-rate'', ''0'', ''t.ms''] ex_fs)) =
        ex_fs(''t.ms'' \<mapsto> ms st1) \<and>
      snd (snd (main ex_atof [''-data-bit-rate'', ''0'', ''t.ms''] ex_fs)) = events st1 @ evs \<and>
      hd (snd (snd (main ex_atof [''-data-bit-rate'', ''0'', ''t.ms''] ex_fs))) =
        EvOpenMS ''t.ms'')"
proof -
  let ?m = "main ex_atof [''-data-bit-rate'', ''0'', ''t.ms''] ex_fs"
  let ?rq = "defaults\<lparr>bitsPerFloat := 0, columnNames := [''DATA'']\<rparr>"
  have run: "?m = (fst ?m, fst (snd ?m), snd (snd ?m))" by simp
  have parse: "parse_args ex_atof [''-data-bit-rate'', ''0'', ''t.ms''] = Inr (?rq, ''t.ms'')"
    by code_simp
  have zero: "bitsPerFloat ?rq = 0 \<or> bitsPerWeight ?rq = 0" by simp
  have res: "fst ?m = Inl ConfigurationError" by code_simp
  note T = zero_bit_width_error_after_preprocessing [OF run parse zero]
  from conjunct1 [OF T] res have a: "\<exists>b w. EvNewDyscoStMan b w \<in> set (snd (snd ?m))"
    by simp
  from conjunct2 [OF T, rule_format, OF res]
  have b: "\<exists>t st1 evs. ex_fs ''t.ms'' = Some t \<and>
      preprocess [''DATA''] \<lparr>ms = t, events = [EvOpenMS ''t.ms'']\<rparr> = (Inr (), st1) \<and>
      fst (snd ?m) = ex_fs(''t.ms'' \<mapsto> ms st1) \<and>
      snd (snd ?m) = events st1 @ evs \<and> hd (snd (snd ?m)) = EvOpenMS ''t.ms''"
    by simp
  from res a b show ?thesis by (intro conjI)
qed

text \<open>
  With \<^verbatim>\<open>-data-bit-rate 0\<close> on the example table, the configuration error comes when the
  manager is constructed, after the table has been opened and row 0 has been put: the
  flagged cell, which held \<open>(3, 4)\<close>, holds the sentinel in the table that the run
  leaves.
\<close>

theorem zero_bit_width_counterexample:
  "fst (main ex_atof [''-data-bit-rate'', ''0'', ''t.ms''] ex_fs) = Inl ConfigurationError \<and>
   snd (snd (main ex_atof [''-data-bit-rate'', ''0'', ''t.ms''] ex_fs)) =
     [EvOpenMS ''t.ms'', EvGetData ''DATA'' 0, EvGetFlag 0,
      EvPutData ''DATA'' 0 [Cplx 1 2, Cplx quiet_NaN quiet_NaN],
      EvGetData ''DATA'' 1, EvGetFlag 1,
      EvPrepareReplacingColumn ComplexT ''DATA'' (Some True),
      EvFindDataManager ''DyscoStMan'' False, EvNewDyscoStMan 0 12] \<and>
   cell_at (table_at ex_fs ''t.ms'') ''DATA'' 0 1 = Some (Cplx 3 4) \<and>
   cell_at (table_at (fst (snd (main ex_atof [''-data-bit-rate'', ''0'', ''t.ms''] ex_fs))) ''t.ms'')
     ''DATA'' 0 1 = Some (Cplx quiet_NaN quiet_NaN)"
proof (intro conjI)
  show "fst (main ex_atof [''-data-bit-rate'', ''0'', ''t.ms''] ex_fs) = Inl ConfigurationError"
    by code_simp
  show "snd (snd (main ex_atof [''-data-bit-rate'', ''0'', ''t.ms''] ex_fs)) =
     [EvOpenMS ''t.ms'', EvGetData ''DATA'' 0, EvGetFlag 0,
      EvPutData ''DATA'' 0 [Cplx 1 2, Cplx quiet_NaN quiet_NaN],
      EvGetData ''DATA'' 1, EvGetFlag 1,
      EvPrepareReplacingColumn ComplexT ''DATA'' (Some True),
      EvFindDataManager ''DyscoStMan'' False, EvNewDyscoStMan 0 12]"
    by code_simp
  show "cell_at (table_at ex_fs ''t.ms'') ''DATA'' 0 1 = Some (Cplx 3 4)"
    by code_simp
  show "cell_at (table_at (fst (snd (main ex_atof [''-data-bit-rate'', ''0'', ''t.ms''] ex_fs))) ''t.ms'')
     ''DATA'' 0 1 = Some (Cplx quiet_NaN quiet_NaN)"
    by code_simp
qed

end
